theory Spec2Isabelle
  imports Main "HOL-Library.AList"
begin

section \<open>JavaScript values\<close>

text \<open>
  The persistence core stores whatever JavaScript values it is handed: the record types
  of the TypeScript source are erased at run time, and the source itself casts
  \<^verbatim>\<open>null as any\<close> and \<^verbatim>\<open>true as any\<close> into its maps. Values are
  therefore modelled untyped. An object is the list of its own enumerable properties in
  insertion order; a JavaScript object has each key once, which is the predicate
  \<open>is_object\<close> below wherever a theorem needs it. Enumeration is taken to follow
  insertion order throughout (JavaScript enumerates keys that look like array indices
  first; the keys of this program are channel, thread and user identifiers joined by
  hyphens). Numbers are integers (no claim computes with the numbers of a state file).
\<close>

datatype jv =
    Undefined
  | Null
  | Bool bool
  | Num int
  | Str string
  | Arr "jv list"
  | Obj "(string \<times> jv) list"

type_synonym props = "(string \<times> jv) list"

datatype jstype = TUndefined | TObject | TBoolean | TNumber | TString

text \<open>\<^verbatim>\<open>typeof v\<close>; \<^verbatim>\<open>typeof null\<close> and \<^verbatim>\<open>typeof []\<close> are both \<^verbatim>\<open>'object'\<close>.\<close>

fun typeof :: "jv \<Rightarrow> jstype" where
  "typeof Undefined = TUndefined"
| "typeof Null = TObject"
| "typeof (Bool b) = TBoolean"
| "typeof (Num n) = TNumber"
| "typeof (Str s) = TString"
| "typeof (Arr xs) = TObject"
| "typeof (Obj ps) = TObject"

text \<open>Truthiness, as tested by \<^verbatim>\<open>if (v)\<close>, \<^verbatim>\<open>!v\<close> and \<^verbatim>\<open>v || d\<close>.\<close>

fun truthy :: "jv \<Rightarrow> bool" where
  "truthy Undefined = False"
| "truthy Null = False"
| "truthy (Bool b) = b"
| "truthy (Num n) = (n \<noteq> 0)"
| "truthy (Str s) = (s \<noteq> [])"
| "truthy (Arr xs) = True"
| "truthy (Obj ps) = True"

text \<open>\<^verbatim>\<open>a || b\<close>\<close>

definition js_or :: "jv \<Rightarrow> jv \<Rightarrow> jv" where
  "js_or a b = (if truthy a then a else b)"

text \<open>\<^verbatim>\<open>ps[k]\<close> on the properties of an object: a missing key reads as \<^verbatim>\<open>undefined\<close>.\<close>

definition get_prop :: "props \<Rightarrow> string \<Rightarrow> jv" where
  "get_prop ps k = (case map_of ps k of None \<Rightarrow> Undefined | Some v \<Rightarrow> v)"

definition is_object :: "props \<Rightarrow> bool" where
  "is_object ps = distinct (map fst ps)"

text \<open>Decimal numerals, for the property names \<^verbatim>\<open>"0"\<close>, \<^verbatim>\<open>"1"\<close>, ... of an array.\<close>

definition digit :: "nat \<Rightarrow> char" where
  "digit d = ''0123456789'' ! (d mod 10)"

function show_nat :: "nat \<Rightarrow> string" where
  "show_nat n = (if n < 10 then [digit n] else show_nat (n div 10) @ [digit n])"
  by pat_completeness auto
termination
  by (relation "measure (\<lambda>n. n)") auto

declare show_nat.simps [simp del]

text \<open>
  \<^verbatim>\<open>Object.entries(v)\<close>, which is also what the spread \<^verbatim>\<open>{ ...v }\<close> copies: the own
  enumerable properties. An array has its elements under their indices, a string its
  characters; \<^verbatim>\<open>null\<close>, \<^verbatim>\<open>undefined\<close>, numbers and booleans have none. (The state maps
  the manager spreads are objects or arrays: the loader lets nothing else through, see
  \<open>loadAndValidateFile\<close>.) Reading a named property \<^verbatim>\<open>v.name\<close> is a look-up among
  these for the names the source reads (\<^verbatim>\<open>version\<close>, \<^verbatim>\<open>sessions\<close>, \<^verbatim>\<open>lastActivity\<close>, ...),
  none of which the standard prototypes provide.
\<close>

fun own_entries :: "jv \<Rightarrow> props" where
  "own_entries (Obj ps) = ps"
| "own_entries (Arr xs) = zip (map show_nat [0 ..< length xs]) xs"
| "own_entries (Str s) = zip (map show_nat [0 ..< length s]) (map (\<lambda>c. Str [c]) s)"
| "own_entries v = []"

section \<open>Key construction\<close>

text \<open>An optional string argument (\<^verbatim>\<open>threadTs?: string\<close>) is truthy when given and not empty.\<close>

fun given :: "string option \<Rightarrow> bool" where
  "given None = False"
| "given (Some s) = (s \<noteq> [])"

fun text_of :: "string option \<Rightarrow> string" where
  "text_of None = []"
| "text_of (Some s) = s"

definition startsWith :: "string \<Rightarrow> string \<Rightarrow> bool" where
  "startsWith s p = (take (length p) s = p)"

text \<open>\<^verbatim>\<open>WorkingDirectoryManager.getConfigKey\<close>\<close>

definition getConfigKey :: "string \<Rightarrow> string option \<Rightarrow> string option \<Rightarrow> string" where
  "getConfigKey channelId threadTs userId =
     (if given threadTs then channelId @ ''-'' @ text_of threadTs
      else if given userId \<and> startsWith channelId ''D'' then channelId @ ''-'' @ text_of userId
      else channelId)"

text \<open>\<^verbatim>\<open>ClaudeHandler.getSessionKey\<close>\<close>

definition getSessionKey :: "string \<Rightarrow> string \<Rightarrow> string option \<Rightarrow> string" where
  "getSessionKey userId channelId threadTs =
     userId @ ''-'' @ channelId @ ''-'' @ (if given threadTs then text_of threadTs else ''direct'')"

section \<open>The persisted state and its updates\<close>

record BotState =
  version :: jv
  lastUpdated :: jv
  workingDirectories :: jv
  sessions :: jv

text \<open>
  \<^verbatim>\<open>StateUpdate\<close>: each map is optional. The values of a map are untyped: \<^verbatim>\<open>null\<close>
  asks for a deletion (\<open>removeSession\<close>), \<^verbatim>\<open>true\<close> under the reserved key
  asks for a replacement (\<open>cleanupOldSessions\<close>).
\<close>

record StateUpdate =
  upd_workingDirectories :: "props option"
  upd_sessions :: "props option"

definition REPLACE_ALL :: string where
  "REPLACE_ALL = ''__REPLACE_ALL__''"

section \<open>The merge engine\<close>

text \<open>
  The maps that the manager builds (\<^verbatim>\<open>result.workingDirectories\<close>,
  \<^verbatim>\<open>result.sessions\<close>, \<^verbatim>\<open>cleanedSessions\<close>) are fresh plain objects, filled by
  \<^verbatim>\<open>obj[key] = value\<close>. The language makes one key special: \<^verbatim>\<open>__proto__\<close>. If the
  object has no own property of that name, the assignment finds the accessor that
  \<^verbatim>\<open>Object.prototype\<close> provides and calls its setter, which makes an object value (or
  \<^verbatim>\<open>null\<close>) the prototype of the object, ignores any other value, and creates no
  property. The accessor is out of reach when the object has been given a prototype that
  carries a data property \<^verbatim>\<open>__proto__\<close>, or the prototype \<^verbatim>\<open>null\<close>: then the
  assignment creates the own property like any other.

  A map under construction is therefore a pair: its own properties and its prototype,
  \<open>None\<close> for \<^verbatim>\<open>Object.prototype\<close>. Own properties are what \<^verbatim>\<open>Object.entries\<close>, the
  spread and \<^verbatim>\<open>JSON.stringify\<close> see; both \<^verbatim>\<open>JSON.parse\<close> and the spread create
  \<^verbatim>\<open>__proto__\<close> as an own property, and \<^verbatim>\<open>delete\<close> removes own properties only. The
  values stored in the maps are plain data: their own properties are writable data
  properties and their prototype is the standard one.
\<close>

definition PROTO :: string where
  "PROTO = ''__proto__''"

type_synonym target = "props \<times> jv option"

text \<open>Does \<^verbatim>\<open>obj.__proto__ = ...\<close> reach the setter of \<^verbatim>\<open>Object.prototype\<close>?\<close>

definition reaches_setter :: "target \<Rightarrow> bool" where
  "reaches_setter t =
     (map_of (fst t) PROTO = None \<and>
      (case snd t of
         None \<Rightarrow> True
       | Some Null \<Rightarrow> False
       | Some (Obj qs) \<Rightarrow> map_of qs PROTO = None
       | Some _ \<Rightarrow> True))"

text \<open>\<^verbatim>\<open>obj[key] = value\<close>\<close>

definition assign :: "string \<Rightarrow> jv \<Rightarrow> target \<Rightarrow> target" where
  "assign k v t =
     (if k = PROTO \<and> reaches_setter t
      then (if typeof v = TObject then (fst t, Some v) else t)
      else (AList.update k v (fst t), snd t))"

text \<open>The body of the two \<^verbatim>\<open>for (const [key, value] of Object.entries(...))\<close> loops.\<close>

definition merge_entry :: "string \<times> jv \<Rightarrow> target \<Rightarrow> target" where
  "merge_entry e res =
     (if snd e = Null \<or> snd e = Undefined then (AList.delete (fst e) (fst res), snd res)
      else assign (fst e) (snd e) res)"

text \<open>
  The working-directory branch of the loop body of \<^verbatim>\<open>mergeUpdates\<close>: a map with no
  keys, or one whose reserved key holds a truthy value, replaces the whole category by a
  fresh copy of itself, from which the reserved key is then deleted.
\<close>

definition merge_workingDirectories :: "props option \<Rightarrow> target \<Rightarrow> target" where
  "merge_workingDirectories u res =
     (case u of
        None \<Rightarrow> res
      | Some ps \<Rightarrow>
          if length ps = 0 \<or> truthy (get_prop ps REPLACE_ALL) then (AList.delete REPLACE_ALL ps, None)
          else fold merge_entry ps res)"

text \<open>The session branch: only the reserved key replaces the category.\<close>

definition merge_sessions :: "props option \<Rightarrow> target \<Rightarrow> target" where
  "merge_sessions u res =
     (case u of
        None \<Rightarrow> res
      | Some ps \<Rightarrow>
          if truthy (get_prop ps REPLACE_ALL) then (AList.delete REPLACE_ALL ps, None)
          else fold merge_entry ps res)"

definition merge_update :: "StateUpdate \<Rightarrow> target \<times> target \<Rightarrow> target \<times> target" where
  "merge_update u res =
     (merge_workingDirectories (upd_workingDirectories u) (fst res),
      merge_sessions (upd_sessions u) (snd res))"

text \<open>\<^verbatim>\<open>PersistenceManager.mergeUpdates\<close>: the result starts as a copy of the current
  state with both maps spread into fresh objects, and the updates are applied in list order.\<close>

definition mergeUpdates :: "BotState \<Rightarrow> StateUpdate list \<Rightarrow> BotState" where
  "mergeUpdates currentState updates =
     (let res = fold merge_update updates
                  ((own_entries (workingDirectories currentState), None),
                   (own_entries (sessions currentState), None))
      in currentState\<lparr>workingDirectories := Obj (fst (fst res)), sessions := Obj (fst (snd res))\<rparr>)"

text \<open>Reading one key of a category of a state.\<close>

definition directory_at :: "BotState \<Rightarrow> string \<Rightarrow> jv option" where
  "directory_at s k = map_of (own_entries (workingDirectories s)) k"

definition session_at :: "BotState \<Rightarrow> string \<Rightarrow> jv option" where
  "session_at s k = map_of (own_entries (sessions s)) k"

text \<open>
  The per-key rule in the words of the specification: a key the fragment maps to a
  present value gets that value, a key it maps to an empty value is deleted, a key it
  does not name keeps what it had.
\<close>

definition per_key_rule :: "props \<Rightarrow> (string \<Rightarrow> jv option) \<Rightarrow> string \<Rightarrow> jv option" where
  "per_key_rule ps old k =
     (case map_of ps k of
        None \<Rightarrow> old k
      | Some v \<Rightarrow> if v = Null \<or> v = Undefined then None else Some v)"

text \<open>A fragment carries the replace-all marker when its reserved key holds a truthy value.\<close>

definition carries_marker :: "props \<Rightarrow> bool" where
  "carries_marker ps = truthy (get_prop ps REPLACE_ALL)"

definition marker_free :: "props option \<Rightarrow> bool" where
  "marker_free u = (case u of None \<Rightarrow> True | Some ps \<Rightarrow> is_object ps \<and> \<not> carries_marker ps)"

section \<open>Files and JSON text\<close>

text \<open>
  \<^verbatim>\<open>JSON.parse\<close> and \<^verbatim>\<open>JSON.stringify\<close> belong to the platform, not to the
  repository. The text of a file is represented by what \<^verbatim>\<open>JSON.parse\<close> makes of it:
  \<open>JsonText v\<close> is a text that parses to \<open>v\<close>, \<open>NotJson t\<close> is a text \<open>t\<close> that
  the parser rejects (such as \<^verbatim>\<open>not json\<close>).
\<close>

datatype filetext = NotJson string | JsonText jv

datatype error =
    ENOENT | EISDIR | ENOTDIR | EACCES
  | SyntaxError
  | InvalidJSONStructure
  | InvalidStateStructure
  | TypeError

definition JSON_parse :: "filetext \<Rightarrow> error + jv" where
  "JSON_parse c = (case c of NotJson t \<Rightarrow> Inl SyntaxError | JsonText v \<Rightarrow> Inr v)"

text \<open>
  What \<^verbatim>\<open>JSON.stringify\<close> keeps of a value: a property whose value is
  \<^verbatim>\<open>undefined\<close> is left out, an \<^verbatim>\<open>undefined\<close> array element is written \<^verbatim>\<open>null\<close>.
\<close>

primrec to_json :: "jv \<Rightarrow> jv" where
  "to_json Undefined = Undefined"
| "to_json Null = Null"
| "to_json (Bool b) = Bool b"
| "to_json (Num n) = Num n"
| "to_json (Str s) = Str s"
| "to_json (Arr xs) = Arr (map (\<lambda>v. if v = Undefined then Null else v) (map to_json xs))"
| "to_json (Obj ps) = Obj (filter (\<lambda>p. snd p \<noteq> Undefined) (map (map_prod id to_json) ps))"

definition JSON_stringify :: "jv \<Rightarrow> filetext" where
  "JSON_stringify v = JsonText (to_json v)"

text \<open>The state object \<^verbatim>\<open>{ version, lastUpdated, workingDirectories, sessions }\<close> as a value.\<close>

definition state_value :: "BotState \<Rightarrow> jv" where
  "state_value st =
     Obj [(''version'', version st), (''lastUpdated'', lastUpdated st),
          (''workingDirectories'', workingDirectories st), (''sessions'', sessions st)]"

datatype node = File filetext | Dir

datatype fsop =
    Read string
  | Write string
  | Copy string string
  | Rename string string

datatype logline = Debug string | Info string | Warn string | Error string

text \<open>A suspended \<^verbatim>\<open>flushPendingUpdates\<close>: the one that started the save and waits to
  release the flag in its \<^verbatim>\<open>finally\<close> block, or one that found a save running and waits
  to try again.\<close>

datatype continuation = Owner | Waiter

text \<open>
  One record holds the manager's fields and the world it acts on.
  \<^item> \<open>filePath\<close>, \<open>backupPath\<close>, \<open>pendingUpdates\<close>, \<open>isWriting\<close> are the fields of the
    class. \<open>writeLock\<close> tells whether the field holds a promise; the promise itself is
    always already settled, because \<open>performSave\<close> contains no \<^verbatim>\<open>await\<close> and runs to its
    end inside the call. \<open>saveTimeout\<close> is the deadline (in milliseconds) of the armed
    timer; a timer that has fired is represented as \<open>None\<close>, since clearing a fired
    timer does nothing.
  \<^item> \<open>nodes\<close> is the file system: what is at each path. \<open>refused\<close> are the operations
    the operating system rejects (permissions, a full disk, a missing directory).
    \<open>journal\<close> lists the operations that changed the disk, oldest first.
  \<^item> \<open>logged\<close> is the message of each call to the logger (its first argument), oldest
    first; the objects passed along with a message are not recorded.
  \<^item> \<open>microtasks\<close> are the suspended flushes, in the order the event loop resumes them.
\<close>

record system =
  filePath :: string
  backupPath :: string
  saveTimeout :: "int option"
  pendingUpdates :: "StateUpdate list"
  isWriting :: bool
  writeLock :: bool
  nodes :: "string \<Rightarrow> node option"
  refused :: "fsop \<Rightarrow> bool"
  journal :: "fsop list"
  logged :: "logline list"
  microtasks :: "continuation list"

text \<open>The constructor: \<^verbatim>\<open>backupPath = `${filePath}.backup`\<close>, nothing pending.\<close>

definition new_manager :: "string \<Rightarrow> (string \<Rightarrow> node option) \<Rightarrow> (fsop \<Rightarrow> bool) \<Rightarrow> system" where
  "new_manager path disk deny =
     \<lparr>filePath = path, backupPath = path @ ''.backup'', saveTimeout = None,
      pendingUpdates = [], isWriting = False, writeLock = False,
      nodes = disk, refused = deny, journal = [], logged = [], microtasks = []\<rparr>"

definition log_line :: "logline \<Rightarrow> system \<Rightarrow> system" where
  "log_line l s = s\<lparr>logged := logged s @ [l]\<rparr>"

subsection \<open>The file operations of \<^verbatim>\<open>fs\<close>\<close>

definition existsSync :: "system \<Rightarrow> string \<Rightarrow> bool" where
  "existsSync s p = (nodes s p \<noteq> None)"

definition readFileSync :: "system \<Rightarrow> string \<Rightarrow> error + filetext" where
  "readFileSync s p =
     (if refused s (Read p) then Inl EACCES
      else case nodes s p of
             None \<Rightarrow> Inl ENOENT
           | Some Dir \<Rightarrow> Inl EISDIR
           | Some (File c) \<Rightarrow> Inr c)"

definition writeFileSync :: "system \<Rightarrow> string \<Rightarrow> filetext \<Rightarrow> error + system" where
  "writeFileSync s p c =
     (if refused s (Write p) then Inl EACCES
      else case nodes s p of
             Some Dir \<Rightarrow> Inl EISDIR
           | _ \<Rightarrow> Inr (s\<lparr>nodes := (nodes s)(p \<mapsto> File c), journal := journal s @ [Write p]\<rparr>))"

definition copyFileSync :: "system \<Rightarrow> string \<Rightarrow> string \<Rightarrow> error + system" where
  "copyFileSync s src dst =
     (if refused s (Copy src dst) then Inl EACCES
      else case nodes s src of
             None \<Rightarrow> Inl ENOENT
           | Some Dir \<Rightarrow> Inl EISDIR
           | Some (File c) \<Rightarrow>
               (case nodes s dst of
                  Some Dir \<Rightarrow> Inl EISDIR
                | _ \<Rightarrow> Inr (s\<lparr>nodes := (nodes s)(dst \<mapsto> File c),
                              journal := journal s @ [Copy src dst]\<rparr>)))"

text \<open>The rename is atomic: it either replaces the target by the source or changes nothing.\<close>

definition renameSync :: "system \<Rightarrow> string \<Rightarrow> string \<Rightarrow> error + system" where
  "renameSync s src dst =
     (if refused s (Rename src dst) then Inl EACCES
      else case nodes s src of
             None \<Rightarrow> Inl ENOENT
           | Some n \<Rightarrow>
               (case nodes s dst of
                  Some Dir \<Rightarrow> Inl EISDIR
                | Some (File c) \<Rightarrow>
                    if n = Dir then Inl ENOTDIR
                    else Inr (s\<lparr>nodes := (nodes s)(src := None, dst \<mapsto> n),
                                journal := journal s @ [Rename src dst]\<rparr>)
                | None \<Rightarrow> Inr (s\<lparr>nodes := (nodes s)(src := None, dst \<mapsto> n),
                                  journal := journal s @ [Rename src dst]\<rparr>)))"

section \<open>Loader and recovery\<close>

text \<open>\<^verbatim>\<open>PersistenceManager.getEmptyState\<close>; \<open>now\<close> is \<^verbatim>\<open>new Date().toISOString()\<close>.\<close>

definition getEmptyState :: "string \<Rightarrow> BotState" where
  "getEmptyState now =
     \<lparr>version = Str ''1.0.0'', lastUpdated = Str now, workingDirectories = Obj [], sessions = Obj []\<rparr>"

text \<open>The \<^verbatim>\<open>try\<close> block of \<^verbatim>\<open>loadAndValidateFile\<close>: every \<^verbatim>\<open>throw\<close> is an \<open>Inl\<close>.\<close>

definition validate_file :: "string \<Rightarrow> system \<Rightarrow> string \<Rightarrow> error + BotState" where
  "validate_file now s path =
     (case readFileSync s path of
        Inl e \<Rightarrow> Inl e
      | Inr content \<Rightarrow>
          (case JSON_parse content of
             Inl e \<Rightarrow> Inl e
           | Inr parsed \<Rightarrow>
               if \<not> truthy parsed \<or> typeof parsed \<noteq> TObject then Inl InvalidJSONStructure
               else
                 let state =
                       \<lparr>version = js_or (get_prop (own_entries parsed) ''version'') (Str ''1.0.0''),
                        lastUpdated = js_or (get_prop (own_entries parsed) ''lastUpdated'') (Str now),
                        workingDirectories =
                          js_or (get_prop (own_entries parsed) ''workingDirectories'') (Obj []),
                        sessions = js_or (get_prop (own_entries parsed) ''sessions'') (Obj [])\<rparr>
                 in if typeof (workingDirectories state) \<noteq> TObject
                       \<or> typeof (sessions state) \<noteq> TObject
                    then Inl InvalidStateStructure
                    else Inr state))"

text \<open>\<^verbatim>\<open>PersistenceManager.loadAndValidateFile\<close>: the \<^verbatim>\<open>catch\<close> logs a warning and returns
  \<^verbatim>\<open>null\<close>.\<close>

definition loadAndValidateFile :: "string \<Rightarrow> system \<Rightarrow> string \<Rightarrow> BotState option \<times> system" where
  "loadAndValidateFile now s path =
     (case validate_file now s path of
        Inl e \<Rightarrow> (None, log_line (Warn (''Failed to load state file '' @ path)) s)
      | Inr state \<Rightarrow> (Some state, s))"

text \<open>
  \<^verbatim>\<open>PersistenceManager.loadState\<close>. The only statement of its \<^verbatim>\<open>try\<close> block that can
  throw is the copy of the backup onto the main file; the \<^verbatim>\<open>catch\<close> then answers with
  the empty state.
\<close>

definition load_backup :: "string \<Rightarrow> system \<Rightarrow> BotState \<times> system" where
  "load_backup now s =
     (if existsSync s (backupPath s) then
        (let s1 = log_line (Warn ''Main state file corrupted, trying backup'') s;
             r = loadAndValidateFile now s1 (backupPath s1)
         in case fst r of
              Some state \<Rightarrow>
                (case copyFileSync (snd r) (backupPath s) (filePath s) of
                   Inl e \<Rightarrow> (getEmptyState now, log_line (Error ''Error loading state'') (snd r))
                 | Inr s2 \<Rightarrow> (state, log_line (Info ''Restored state from backup'') s2))
            | None \<Rightarrow>
                (getEmptyState now,
                 log_line (Info ''No valid state file found, starting fresh'') (snd r)))
      else (getEmptyState now, log_line (Info ''No valid state file found, starting fresh'') s))"

definition loadState :: "string \<Rightarrow> system \<Rightarrow> BotState \<times> system" where
  "loadState now s =
     (if existsSync s (filePath s) then
        (let r = loadAndValidateFile now s (filePath s)
         in case fst r of
              Some state \<Rightarrow> (state, log_line (Info ''Loaded bot state'') (snd r))
            | None \<Rightarrow> load_backup now (snd r))
      else load_backup now s)"

section \<open>Atomic writer\<close>

text \<open>
  The \<^verbatim>\<open>try\<close> block of \<^verbatim>\<open>performSave\<close> after the merge: write the temporary file, copy
  the main file onto the backup if there is a main file, rename the temporary file onto
  the main file. A failure is returned with the system as the failing step found it.
\<close>

definition atomic_write :: "system \<Rightarrow> filetext \<Rightarrow> (error \<times> system) + system" where
  "atomic_write s text =
     (let tempPath = filePath s @ ''.tmp'' in
      case writeFileSync s tempPath text of
        Inl e \<Rightarrow> Inl (e, s)
      | Inr s1 \<Rightarrow>
          (case (if existsSync s1 (filePath s1) then copyFileSync s1 (filePath s1) (backupPath s1)
                 else Inr s1) of
             Inl e \<Rightarrow> Inl (e, s1)
           | Inr s2 \<Rightarrow>
               (case renameSync s2 tempPath (filePath s2) of
                  Inl e \<Rightarrow> Inl (e, s2)
                | Inr s3 \<Rightarrow> Inr s3)))"

text \<open>The snapshot a save writes: the loaded state with the pending updates merged in,
  stamped with the time of the save.\<close>

definition snapshot_to_write :: "string \<Rightarrow> BotState \<Rightarrow> StateUpdate list \<Rightarrow> BotState" where
  "snapshot_to_write now currentState updates =
     (mergeUpdates currentState updates)\<lparr>lastUpdated := Str now\<rparr>"

text \<open>
  The \<^verbatim>\<open>try\<close> block of \<^verbatim>\<open>performSave\<close>: load the current state, merge the pending
  updates, empty the pending list, stamp the result and write it. The pending list is
  emptied before the write is attempted.
\<close>

definition try_save :: "string \<Rightarrow> system \<Rightarrow> (error \<times> system) + system" where
  "try_save now s =
     (let r = loadState now s;
          mergedState = snapshot_to_write now (fst r) (pendingUpdates (snd r));
          s1 = (snd r)\<lparr>pendingUpdates := []\<rparr>
      in atomic_write s1 (JSON_stringify (state_value mergedState)))"

text \<open>\<^verbatim>\<open>PersistenceManager.performSave\<close>: the \<^verbatim>\<open>catch\<close> logs the failure and returns
  normally.\<close>

definition performSave :: "string \<Rightarrow> system \<Rightarrow> system" where
  "performSave now s =
     (case try_save now s of
        Inl f \<Rightarrow> log_line (Error ''Failed to save state'') (snd f)
      | Inr s2 \<Rightarrow> log_line (Debug ''State saved successfully'') s2)"

section \<open>Update queue and debouncer\<close>

text \<open>\<^verbatim>\<open>PersistenceManager.scheduleAutoSave\<close>, called at time \<open>t\<close> (milliseconds).\<close>

definition scheduleAutoSave :: "int \<Rightarrow> StateUpdate \<Rightarrow> system \<Rightarrow> system" where
  "scheduleAutoSave t update s =
     s\<lparr>pendingUpdates := pendingUpdates s @ [update], saveTimeout := Some (t + 2000)\<rparr>"

text \<open>
  \<^verbatim>\<open>PersistenceManager.flushPendingUpdates\<close> up to its first \<^verbatim>\<open>await\<close>. Where the source
  awaits, the rest of the call is put at the end of the microtask queue.
\<close>

definition flushPendingUpdates :: "string \<Rightarrow> system \<Rightarrow> system" where
  "flushPendingUpdates now s =
     (if isWriting s then
        (if writeLock s then s\<lparr>microtasks := microtasks s @ [Waiter]\<rparr> else s)
      else if length (pendingUpdates s) = 0 then s
      else
        (let s1 = performSave now (s\<lparr>isWriting := True\<rparr>);
             s2 = s1\<lparr>writeLock := True\<rparr>
         in s2\<lparr>microtasks := microtasks s2 @ [Owner]\<rparr>))"

text \<open>The rest of a suspended call: the \<^verbatim>\<open>finally\<close> block of the owner, the retry of a
  waiter.\<close>

definition resume :: "string \<Rightarrow> continuation \<Rightarrow> system \<Rightarrow> system" where
  "resume now c s =
     (case c of
        Owner \<Rightarrow> s\<lparr>isWriting := False, writeLock := False\<rparr>
      | Waiter \<Rightarrow> flushPendingUpdates now s)"

text \<open>\<^verbatim>\<open>PersistenceManager.forceSave\<close> up to its \<^verbatim>\<open>await\<close>.\<close>

definition forceSave :: "string \<Rightarrow> StateUpdate option \<Rightarrow> system \<Rightarrow> system" where
  "forceSave now update s =
     (let s1 = (case update of
                  Some u \<Rightarrow> s\<lparr>pendingUpdates := pendingUpdates s @ [u]\<rparr>
                | None \<Rightarrow> s);
          s2 = (if saveTimeout s1 \<noteq> None then s1\<lparr>saveTimeout := None\<rparr> else s1)
      in flushPendingUpdates now s2)"

text \<open>
  The event loop runs the microtasks in order until none is left. It need not end from
  an arbitrary record (a waiter on a flag that nobody will release waits forever), so the
  result is optional; \<open>drain_total\<close> below shows that it ends from every state the
  manager can be in.
\<close>

partial_function (option) drain :: "string \<Rightarrow> system \<Rightarrow> system option" where
  "drain now s =
     (case microtasks s of
        [] \<Rightarrow> Some s
      | c # cs \<Rightarrow> drain now (resume now c (s\<lparr>microtasks := cs\<rparr>)))"

text \<open>The debounce timer fires at time \<open>t\<close> if it is armed and due.\<close>

definition timer_fires :: "string \<Rightarrow> int \<Rightarrow> system \<Rightarrow> system" where
  "timer_fires now t s =
     (case saveTimeout s of
        None \<Rightarrow> s
      | Some deadline \<Rightarrow>
          if deadline \<le> t then flushPendingUpdates now (s\<lparr>saveTimeout := None\<rparr>) else s)"

text \<open>The calls a producer makes.\<close>

datatype call = ScheduleAutoSave StateUpdate | ForceSave "StateUpdate option"

definition run_call :: "string \<Rightarrow> int \<Rightarrow> call \<Rightarrow> system \<Rightarrow> system" where
  "run_call now t c s =
     (case c of
        ScheduleAutoSave u \<Rightarrow> scheduleAutoSave t u s
      | ForceSave u \<Rightarrow> forceSave now u s)"

text \<open>
  One turn of the event loop at time \<open>t\<close>: a due timer fires first, then the producer's
  calls run one after the other without interruption, then the microtasks run.
\<close>

definition turn :: "string \<Rightarrow> int \<Rightarrow> call list \<Rightarrow> system \<Rightarrow> system option" where
  "turn now t calls s =
     (case drain now (timer_fires now t s) of
        None \<Rightarrow> None
      | Some s1 \<Rightarrow> drain now (fold (run_call now t) calls s1))"

fun run :: "(string \<times> int \<times> call list) list \<Rightarrow> system \<Rightarrow> system option" where
  "run [] s = Some s"
| "run (e # es) s =
     (case turn (fst e) (fst (snd e)) (snd (snd e)) s of
        None \<Rightarrow> None
      | Some s1 \<Rightarrow> run es s1)"

text \<open>The states the manager can be in: the lock is held exactly while the flag is set,
  and whenever the flag is set the flush that set it is waiting to release it.\<close>

definition consistent :: "system \<Rightarrow> bool" where
  "consistent s = (writeLock s = isWriting s \<and> (isWriting s \<longrightarrow> Owner \<in> set (microtasks s)))"

definition quiescent :: "system \<Rightarrow> bool" where
  "quiescent s = (\<not> isWriting s \<and> \<not> writeLock s \<and> microtasks s = [])"

section \<open>Session sweep\<close>

text \<open>\<^verbatim>\<open>PersistenceManager.removeWorkingDirectory\<close> and \<^verbatim>\<open>removeSession\<close>\<close>

definition removeWorkingDirectory :: "int \<Rightarrow> string \<Rightarrow> system \<Rightarrow> system" where
  "removeWorkingDirectory t key s =
     scheduleAutoSave t \<lparr>upd_workingDirectories = Some [(key, Null)], upd_sessions = None\<rparr> s"

definition removeSession :: "int \<Rightarrow> string \<Rightarrow> system \<Rightarrow> system" where
  "removeSession t key s =
     scheduleAutoSave t \<lparr>upd_workingDirectories = None, upd_sessions = Some [(key, Null)]\<rparr> s"




section \<open>The merge on ordinary keys\<close>

text \<open>
  For every key other than \<^verbatim>\<open>__proto__\<close> the assignment \<^verbatim>\<open>obj[key] = value\<close> is the
  update of a finite map. The definitions of this section are the merge of one category
  written with that update alone. They are not the code: they serve the proofs, and on
  fragments that do not name \<^verbatim>\<open>__proto__\<close> they compute what the merge engine
  computes (\<open>fold_merge_update_ordinary\<close> below).
\<close>

definition edit_entry :: "string \<times> jv \<Rightarrow> props \<Rightarrow> props" where
  "edit_entry e res =
     (if snd e = Null \<or> snd e = Undefined then AList.delete (fst e) res
      else AList.update (fst e) (snd e) res)"

definition edit_directories :: "props option \<Rightarrow> props \<Rightarrow> props" where
  "edit_directories u res =
     (case u of
        None \<Rightarrow> res
      | Some ps \<Rightarrow>
          if length ps = 0 \<or> truthy (get_prop ps REPLACE_ALL) then AList.delete REPLACE_ALL ps
          else fold edit_entry ps res)"

definition edit_sessions :: "props option \<Rightarrow> props \<Rightarrow> props" where
  "edit_sessions u res =
     (case u of
        None \<Rightarrow> res
      | Some ps \<Rightarrow>
          if truthy (get_prop ps REPLACE_ALL) then AList.delete REPLACE_ALL ps
          else fold edit_entry ps res)"

definition fold_sessions :: "StateUpdate list \<Rightarrow> props \<Rightarrow> props" where
  "fold_sessions us = fold (\<lambda>u. edit_sessions (upd_sessions u)) us"

definition fold_directories :: "StateUpdate list \<Rightarrow> props \<Rightarrow> props" where
  "fold_directories us = fold (\<lambda>u. edit_directories (upd_workingDirectories u)) us"



section \<open>Example data\<close>

definition directory_record :: "string \<Rightarrow> string \<Rightarrow> jv" where
  "directory_record channel path =
     Obj [(''channelId'', Str channel), (''directory'', Str path), (''setAt'', Str ''2025-08-12T14:00:00.000Z'')]"

definition session_record :: "string \<Rightarrow> string \<Rightarrow> string \<Rightarrow> jv" where
  "session_record user channel activity =
     Obj [(''userId'', Str user), (''channelId'', Str channel), (''isActive'', Bool True),
          (''lastActivity'', Str activity)]"

definition example_state :: BotState where
  "example_state =
     \<lparr>version = Str ''1.0.0'', lastUpdated = Str ''2025-08-12T15:00:00.000Z'',
      workingDirectories = Obj [(''C1'', directory_record ''C1'' ''/a'')],
      sessions = Obj [(''S1'', session_record ''U1'' ''C1'' ''2025-08-12T14:55:00.000Z'')]\<rparr>"

definition sweep_fragment :: StateUpdate where
  "sweep_fragment =
     \<lparr>upd_workingDirectories = None,
      upd_sessions = Some [(REPLACE_ALL, Bool True),
                           (''S2'', session_record ''U2'' ''C1'' ''2025-08-12T14:58:00.000Z'')]\<rparr>"

definition edit_fragment :: StateUpdate where
  "edit_fragment =
     \<lparr>upd_workingDirectories = None,
      upd_sessions = Some [(''S3'', session_record ''U3'' ''C1'' ''2025-08-12T14:59:00.000Z'')]\<rparr>"

text \<open>A fragment that stores a session under the key \<^verbatim>\<open>__proto__\<close>, as the producers build
  it: \<^verbatim>\<open>{ sessions: { [key]: serialized } }\<close>, where the computed key makes an own
  property.\<close>

definition proto_fragment :: StateUpdate where
  "proto_fragment =
     \<lparr>upd_workingDirectories = None,
      upd_sessions = Some [(PROTO, session_record ''U4'' ''C1'' ''2025-08-12T14:59:30.000Z'')]\<rparr>"

text \<open>What the loader accepts.\<close>

definition category_ok :: "jv \<Rightarrow> bool" where
  "category_ok v = (\<not> truthy v \<or> typeof v = TObject)"

definition acceptable :: "jv \<Rightarrow> bool" where
  "acceptable parsed =
     (truthy parsed \<and> typeof parsed = TObject
      \<and> category_ok (get_prop (own_entries parsed) ''workingDirectories'')
      \<and> category_ok (get_prop (own_entries parsed) ''sessions''))"

definition snapshot_of :: "string \<Rightarrow> jv \<Rightarrow> BotState" where
  "snapshot_of now parsed =
     \<lparr>version = js_or (get_prop (own_entries parsed) ''version'') (Str ''1.0.0''),
      lastUpdated = js_or (get_prop (own_entries parsed) ''lastUpdated'') (Str now),
      workingDirectories = js_or (get_prop (own_entries parsed) ''workingDirectories'') (Obj []),
      sessions = js_or (get_prop (own_entries parsed) ''sessions'') (Obj [])\<rparr>"

definition primary_accepted :: "system \<Rightarrow> bool" where
  "primary_accepted s =
     (\<not> refused s (Read (filePath s)) \<and>
      (case nodes s (filePath s) of
         Some (File (JsonText v)) \<Rightarrow> acceptable v
       | _ \<Rightarrow> False))"

text \<open>The same test on the backup file.\<close>

definition backup_accepted :: "system \<Rightarrow> bool" where
  "backup_accepted s =
     (\<not> refused s (Read (backupPath s)) \<and>
      (case nodes s (backupPath s) of
         Some (File (JsonText v)) \<Rightarrow> acceptable v
       | _ \<Rightarrow> False))"

definition primary_snapshot :: "string \<Rightarrow> system \<Rightarrow> BotState" where
  "primary_snapshot now s =
     (case nodes s (filePath s) of
        Some (File (JsonText v)) \<Rightarrow> snapshot_of now v
      | _ \<Rightarrow> getEmptyState now)"

definition promotion_possible :: "system \<Rightarrow> bool" where
  "promotion_possible s =
     (\<not> refused s (Copy (backupPath s) (filePath s)) \<and> nodes s (filePath s) \<noteq> Some Dir)"

definition no_faults :: "fsop \<Rightarrow> bool" where
  "no_faults op = False"

definition disk_of :: "(string \<times> node) list \<Rightarrow> string \<Rightarrow> node option" where
  "disk_of files = map_of files"

text \<open>A main file holding \<^verbatim>\<open>not json\<close> beside a backup holding the example state.\<close>

definition corrupted_primary :: system where
  "corrupted_primary =
     new_manager ''bot-state.json''
       (disk_of [(''bot-state.json'', File (NotJson ''not json'')),
                 (''bot-state.json.backup'', File (JSON_stringify (state_value example_state)))])
       no_faults"

text \<open>The same disk with a main file that may not be overwritten.\<close>

definition protected_primary :: system where
  "protected_primary =
     corrupted_primary\<lparr>refused := (\<lambda>op. op = Copy ''bot-state.json.backup'' ''bot-state.json'')\<rparr>"




text \<open>The fields of the manager that loading and saving neither read nor write, taken
  from \<open>m\<close> into \<open>s\<close>.\<close>

definition flags_of :: "system \<Rightarrow> system \<Rightarrow> system" where
  "flags_of m s =
     s\<lparr>saveTimeout := saveTimeout m, isWriting := isWriting m, writeLock := writeLock m,
       microtasks := microtasks m\<rparr>"

definition same_manager :: "system \<Rightarrow> system \<Rightarrow> bool" where
  "same_manager a b =
     (filePath a = filePath b \<and> backupPath a = backupPath b \<and> saveTimeout a = saveTimeout b
      \<and> isWriting a = isWriting b \<and> writeLock a = writeLock b \<and> refused a = refused b
      \<and> microtasks a = microtasks b \<and> pendingUpdates a = pendingUpdates b)"

definition settled :: "string \<Rightarrow> system \<Rightarrow> system" where
  "settled now s =
     (if Waiter \<in> set (microtasks s) \<and> pendingUpdates s \<noteq> [] then performSave now s else s)
       \<lparr>isWriting := False, writeLock := False, microtasks := []\<rparr>"

definition waiting :: "system \<Rightarrow> nat" where
  "waiting s = length (filter (\<lambda>c. c = Waiter) (microtasks s))"

definition owner_distance :: "system \<Rightarrow> nat" where
  "owner_distance s = (if isWriting s then length (takeWhile (\<lambda>c. c \<noteq> Owner) (microtasks s)) else 0)"

text \<open>The manager after a flush has run to its end: the pending updates, if any, have been
  handed to one save, and the flag is released.\<close>

definition flushed :: "string \<Rightarrow> system \<Rightarrow> system" where
  "flushed now s =
     (if pendingUpdates s = [] then s else performSave now s)
       \<lparr>isWriting := False, writeLock := False, microtasks := []\<rparr>"

text \<open>The first lines of \<^verbatim>\<open>forceSave\<close>: one more update, no timer.\<close>

definition pushed :: "StateUpdate option \<Rightarrow> system \<Rightarrow> system" where
  "pushed update s =
     (case update of
        Some u \<Rightarrow> s\<lparr>pendingUpdates := pendingUpdates s @ [u], saveTimeout := None\<rparr>
      | None \<Rightarrow> s\<lparr>saveTimeout := None\<rparr>)"

text \<open>A main file holding the example state, no backup yet, nothing refused.\<close>

definition stored_example :: system where
  "stored_example =
     new_manager ''bot-state.json''
       (disk_of [(''bot-state.json'', File (JSON_stringify (state_value example_state)))])
       no_faults"

text \<open>The same manager on a disk that refuses one step of the write protocol.\<close>

definition write_refused :: system where
  "write_refused = stored_example\<lparr>refused := (\<lambda>op. op = Write ''bot-state.json.tmp'')\<rparr>"













text \<open>A disk on which the write protocol cannot fail: nothing is refused, the backup path is
  the one the constructor sets, and none of the three paths is a directory.\<close>

definition healthy :: "system \<Rightarrow> bool" where
  "healthy s =
     ((\<forall>op. \<not> refused s op) \<and> backupPath s = filePath s @ ''.backup''
      \<and> nodes s (filePath s) \<noteq> Some Dir \<and> nodes s (filePath s @ ''.backup'') \<noteq> Some Dir
      \<and> nodes s (filePath s @ ''.tmp'') \<noteq> Some Dir)"

text \<open>
  What the write protocol is meant to leave, in the words of the specification: the
  temporary file is gone, the backup holds what the main file held (if there was a main
  file), the main file holds the new text; the journal has the write of the temporary
  file, the copy onto the backup if there was a main file, and the rename.
\<close>

definition committed :: "system \<Rightarrow> filetext \<Rightarrow> system" where
  "committed s text =
     s\<lparr>nodes := (nodes s)
         (filePath s @ ''.tmp'' := None,
          backupPath s := (if existsSync s (filePath s) then nodes s (filePath s)
                           else nodes s (backupPath s)),
          filePath s \<mapsto> File text),
       journal := journal s @ [Write (filePath s @ ''.tmp'')]
                  @ (if existsSync s (filePath s) then [Copy (filePath s) (backupPath s)] else [])
                  @ [Rename (filePath s @ ''.tmp'') (filePath s)]\<rparr>"

text \<open>The operations of a journal that wrote to a path.\<close>

fun writes_path :: "string \<Rightarrow> fsop \<Rightarrow> bool" where
  "writes_path p (Read q) = False"
| "writes_path p (Write q) = (q = p)"
| "writes_path p (Copy a q) = (q = p)"
| "writes_path p (Rename a q) = (q = p)"

definition writes_to :: "string \<Rightarrow> fsop list \<Rightarrow> fsop list" where
  "writes_to p ops = filter (writes_path p) ops"

text \<open>Loading changes nothing on disk: the main file is accepted, or there is no backup
  that validates and could be promoted.\<close>

definition at_rest :: "system \<Rightarrow> bool" where
  "at_rest s = (primary_accepted s \<or> \<not> backup_accepted s)"

definition same_disk :: "system \<Rightarrow> system \<Rightarrow> bool" where
  "same_disk a b =
     (filePath a = filePath b \<and> backupPath a = backupPath b \<and> nodes a = nodes b
      \<and> refused a = refused b)"

text \<open>The updates a call hands to the manager.\<close>

fun scheduled :: "call \<Rightarrow> StateUpdate list" where
  "scheduled (ScheduleAutoSave u) = [u]"
| "scheduled (ForceSave (Some u)) = [u]"
| "scheduled (ForceSave None) = []"

fun is_schedule :: "call \<Rightarrow> bool" where
  "is_schedule (ScheduleAutoSave u) = True"
| "is_schedule (ForceSave u) = False"

text \<open>All updates of a list of turns, in the order of the calls.\<close>

definition scheduled_by :: "(string \<times> int \<times> call list) list \<Rightarrow> StateUpdate list" where
  "scheduled_by es = concat (map (\<lambda>e. concat (map scheduled (snd (snd e)))) es)"

text \<open>
  Turns of \<^verbatim>\<open>scheduleAutoSave\<close> calls that stay within the debounce window: each turn
  comes before the deadline of the timer armed so far (\<open>d\<close>), and a turn with calls arms
  the timer anew, 2000 ms after its own time.
\<close>

fun debounced :: "int option \<Rightarrow> (string \<times> int \<times> call list) list \<Rightarrow> bool" where
  "debounced d [] = True"
| "debounced d (e # es) =
     ((case d of None \<Rightarrow> True | Some deadline \<Rightarrow> fst (snd e) < deadline)
      \<and> debounced (if snd (snd e) = [] then d else Some (fst (snd e) + 2000)) es)"

fun armed_after :: "int option \<Rightarrow> (string \<times> int \<times> call list) list \<Rightarrow> int option" where
  "armed_after d [] = d"
| "armed_after d (e # es) =
     armed_after (if snd (snd e) = [] then d else Some (fst (snd e) + 2000)) es"

text \<open>A manager on an empty disk, before its first save.\<close>

definition first_run :: system where
  "first_run = new_manager ''bot-state.json'' (disk_of []) no_faults"

text \<open>The two fragments of scenario A: channel \<^verbatim>\<open>C1\<close> set to \<^verbatim>\<open>/a\<close>, then to \<^verbatim>\<open>/b\<close>.\<close>

definition set_directory :: "string \<Rightarrow> string \<Rightarrow> StateUpdate" where
  "set_directory channel path =
     \<lparr>upd_workingDirectories = Some [(channel, directory_record channel path)], upd_sessions = None\<rparr>"

text \<open>The properties of an object as \<^verbatim>\<open>JSON.stringify\<close> writes them and \<^verbatim>\<open>JSON.parse\<close>
  reads them back.\<close>

definition to_json_props :: "props \<Rightarrow> props" where
  "to_json_props ps = filter (\<lambda>p. snd p \<noteq> Undefined) (map (map_prod id to_json) ps)"

text \<open>One key of an object after the round trip through a file.\<close>

definition json_at :: "props \<Rightarrow> string \<Rightarrow> jv option" where
  "json_at ps k = map_of (to_json_props ps) k"

text \<open>Two objects that read the same after the round trip: the same keys, and under each
  key the same value.\<close>

definition json_equal :: "props \<Rightarrow> props \<Rightarrow> bool" where
  "json_equal a b = (json_at a = json_at b)"












text \<open>The manager \<open>s\<close> after one update is scheduled and the flush is forced.\<close>

definition one_then_flush :: "system \<Rightarrow> system" where
  "one_then_flush s =
     flushed ''t2'' (pushed None (scheduleAutoSave 0 (set_directory ''C2'' ''/b'') s))"

section \<open>Properties of the merge engine\<close>







lemma fold_merge_update:
  "fold merge_update us res =
     (fold (\<lambda>u. merge_workingDirectories (upd_workingDirectories u)) us (fst res),
      fold (\<lambda>u. merge_sessions (upd_sessions u)) us (snd res))"
  by (induction us arbitrary: res) (simp_all add: merge_update_def)




lemma map_of_merge_entry:
  "k \<noteq> PROTO \<Longrightarrow>
   map_of (fst (merge_entry e t)) k =
     (if k = fst e then (if snd e = Null \<or> snd e = Undefined then None else Some (snd e))
      else map_of (fst t) k)"
  by (auto simp: merge_entry_def assign_def AList.update_conv' AList.delete_conv')

lemma fold_merge_entry_map_of:
  "distinct (map fst ps) \<Longrightarrow> k \<noteq> PROTO \<Longrightarrow>
   map_of (fst (fold merge_entry ps res)) k = per_key_rule ps (map_of (fst res)) k"
proof (induction ps arbitrary: res)
  case Nil
  then show ?case by (simp add: per_key_rule_def)
next
  case (Cons e ps)
  obtain a v where e: "e = (a, v)" by (cases e)
  from Cons.prems have d: "distinct (map fst ps)" and n: "a \<notin> fst ` set ps" by (auto simp: e)
  have nk: "map_of ps a = None" using n by (simp add: map_of_eq_None_iff)
  show ?case
    using Cons.IH[OF d Cons.prems(2), of "merge_entry e res"] nk map_of_merge_entry[OF Cons.prems(2), of e res]
    by (auto simp: per_key_rule_def e split: option.splits)
qed

lemma merge_sessions_marker_free:
  "is_object ps \<Longrightarrow> \<not> carries_marker ps \<Longrightarrow> k \<noteq> PROTO \<Longrightarrow>
   map_of (fst (merge_sessions (Some ps) res)) k = per_key_rule ps (map_of (fst res)) k"
  by (simp add: merge_sessions_def carries_marker_def is_object_def fold_merge_entry_map_of)

lemma merge_workingDirectories_marker_free:
  "is_object ps \<Longrightarrow> \<not> carries_marker ps \<Longrightarrow> ps \<noteq> [] \<Longrightarrow> k \<noteq> PROTO \<Longrightarrow>
   map_of (fst (merge_workingDirectories (Some ps) res)) k = per_key_rule ps (map_of (fst res)) k"
  by (simp add: merge_workingDirectories_def carries_marker_def is_object_def fold_merge_entry_map_of)

lemma session_at_fun: "session_at s = map_of (own_entries (sessions s))"
  by (rule ext) (simp add: session_at_def)

lemma directory_at_fun: "directory_at s = map_of (own_entries (workingDirectories s))"
  by (rule ext) (simp add: directory_at_def)

lemma mergeUpdates_single:
  "mergeUpdates s [u] =
     s\<lparr>workingDirectories :=
         Obj (fst (merge_workingDirectories (upd_workingDirectories u)
                     (own_entries (workingDirectories s), None))),
       sessions := Obj (fst (merge_sessions (upd_sessions u) (own_entries (sessions s), None)))\<rparr>"
  by (simp add: mergeUpdates_def merge_update_def Let_def)

text \<open>
  Claim C1, as the code has it. Merging one fragment whose maps do not carry the
  replace-all marker changes, in each category, only the keys the fragment names: a key
  other than \<^verbatim>\<open>__proto__\<close> that is mapped to a present value gets that value, one
  mapped to \<^verbatim>\<open>null\<close> or \<^verbatim>\<open>undefined\<close> is deleted, every other one keeps its record. A
  session map with no keys leaves the session records as they were, all of them. The
  working-directory branch tests \<^verbatim>\<open>Object.keys(update.workingDirectories).length === 0\<close>
  first: a working-directory map that is present and has no keys is a replacement by the
  empty map and removes every directory record.
\<close>

theorem mergeUpdates_marker_free:
  assumes "marker_free (upd_workingDirectories u)" and "marker_free (upd_sessions u)"
    and "k \<noteq> PROTO"
  shows "session_at (mergeUpdates s [u]) k =
           (case upd_sessions u of None \<Rightarrow> session_at s k
            | Some ps \<Rightarrow> per_key_rule ps (session_at s) k)
       \<and> directory_at (mergeUpdates s [u]) k =
           (case upd_workingDirectories u of None \<Rightarrow> directory_at s k
            | Some ps \<Rightarrow> if ps = [] then None else per_key_rule ps (directory_at s) k)
       \<and> (upd_sessions u = Some [] \<longrightarrow>
            sessions (mergeUpdates s [u]) = Obj (own_entries (sessions s)))
       \<and> (upd_workingDirectories u = Some [] \<longrightarrow>
            workingDirectories (mergeUpdates s [u]) = Obj [])"
proof (intro conjI impI)
  show "session_at (mergeUpdates s [u]) k =
           (case upd_sessions u of None \<Rightarrow> session_at s k
            | Some ps \<Rightarrow> per_key_rule ps (session_at s) k)"
  proof (cases "upd_sessions u")
    case None
    then show ?thesis by (simp add: mergeUpdates_single session_at_def merge_sessions_def)
  next
    case (Some ps)
    with assms(2) have "is_object ps" "\<not> carries_marker ps" by (simp_all add: marker_free_def)
    then show ?thesis using Some assms(3)
      by (simp add: mergeUpdates_single session_at_fun merge_sessions_marker_free)
  qed
next
  show "directory_at (mergeUpdates s [u]) k =
           (case upd_workingDirectories u of None \<Rightarrow> directory_at s k
            | Some ps \<Rightarrow> if ps = [] then None else per_key_rule ps (directory_at s) k)"
  proof (cases "upd_workingDirectories u")
    case None
    then show ?thesis by (simp add: mergeUpdates_single directory_at_def merge_workingDirectories_def)
  next
    case (Some ps)
    with assms(1) have o: "is_object ps" "\<not> carries_marker ps" by (simp_all add: marker_free_def)
    show ?thesis
    proof (cases "ps = []")
      case True
      then show ?thesis using Some
        by (simp add: mergeUpdates_single directory_at_def merge_workingDirectories_def)
    next
      case False
      then show ?thesis using Some o assms(3)
        by (simp add: mergeUpdates_single directory_at_fun merge_workingDirectories_marker_free)
    qed
  qed
next
  assume "upd_sessions u = Some []"
  then show "sessions (mergeUpdates s [u]) = Obj (own_entries (sessions s))"
    by (simp add: mergeUpdates_single merge_sessions_def get_prop_def)
next
  assume "upd_workingDirectories u = Some []"
  then show "workingDirectories (mergeUpdates s [u]) = Obj []"
    by (simp add: mergeUpdates_single merge_workingDirectories_def)
qed

section \<open>Key construction\<close>

text \<open>
  Claim C5 as stated puts a colon between the parts of a key. The code joins them with
  a hyphen: the key of a thread override of channel \<^verbatim>\<open>C1\<close> and thread \<^verbatim>\<open>T1\<close> is
  not \<^verbatim>\<open>C1:T1\<close>.
\<close>

theorem getConfigKey_colon_counterexample:
  "getConfigKey ''C1'' (Some ''T1'') None \<noteq> ''C1'' @ '':'' @ ''T1''"
  by (simp add: getConfigKey_def)

text \<open>
  Claim C5, as the code has it. The directory key is the channel and the thread joined
  by a hyphen when a thread is given; otherwise the channel and the user joined by a
  hyphen when a user is given and the channel id starts with \<^verbatim>\<open>D\<close> (a direct
  message); otherwise the channel alone. The session key is user, channel and thread
  joined by hyphens, with the word \<^verbatim>\<open>direct\<close> where no thread is given. An empty
  string counts as not given.
\<close>

theorem key_construction:
  "(given threadTs \<longrightarrow> getConfigKey channelId threadTs userId = channelId @ ''-'' @ text_of threadTs)
 \<and> (\<not> given threadTs \<and> given userId \<and> startsWith channelId ''D'' \<longrightarrow>
      getConfigKey channelId threadTs userId = channelId @ ''-'' @ text_of userId)
 \<and> (\<not> given threadTs \<and> \<not> (given userId \<and> startsWith channelId ''D'') \<longrightarrow>
      getConfigKey channelId threadTs userId = channelId)
 \<and> (given threadTs \<longrightarrow>
      getSessionKey user channelId threadTs = user @ ''-'' @ channelId @ ''-'' @ text_of threadTs)
 \<and> (\<not> given threadTs \<longrightarrow>
      getSessionKey user channelId threadTs = user @ ''-'' @ channelId @ ''-direct'')"
  by (simp add: getConfigKey_def getSessionKey_def)

text \<open>The keys of a thread override and of a thread session.\<close>

theorem key_construction_witness:
  "getConfigKey ''C1'' (Some ''T1'') (Some ''U1'') = ''C1-T1''
 \<and> getSessionKey ''U1'' ''C1'' (Some ''T1'') = ''U1-C1-T1''"
proof -
  have g: "given (Some ''T1'')" by simp
  from key_construction [of "Some ''T1''" "''C1''" "Some ''U1''" "''U1''"] g
  show ?thesis by simp
qed

section \<open>Merging one fragment\<close>

text \<open>
  Claim C1 as stated says that a marker-free fragment whose map for a category is empty
  leaves that category unchanged, and that a key mapped to a present value is created.
  The fragment \<^verbatim>\<open>{ workingDirectories: {} }\<close> removes the record of \<^verbatim>\<open>C1\<close>; and the
  fragment that maps the key \<^verbatim>\<open>__proto__\<close> to a directory record creates no record.
\<close>

theorem empty_directory_map_counterexample:
  "marker_free (Some [])
 \<and> directory_at (mergeUpdates example_state [\<lparr>upd_workingDirectories = Some [], upd_sessions = None\<rparr>]) ''C1''
     \<noteq> directory_at example_state ''C1''
 \<and> marker_free (Some [(PROTO, directory_record ''P'' ''/p'')])
 \<and> directory_at (mergeUpdates example_state
       [\<lparr>upd_workingDirectories = Some [(PROTO, directory_record ''P'' ''/p'')],
         upd_sessions = None\<rparr>]) PROTO = None"
  by (simp add: marker_free_def is_object_def carries_marker_def get_prop_def mergeUpdates_def
      merge_update_def merge_workingDirectories_def merge_sessions_def directory_at_def example_state_def
      merge_entry_def assign_def reaches_setter_def PROTO_def REPLACE_ALL_def directory_record_def)

text \<open>One fragment that deletes session \<^verbatim>\<open>S1\<close> and creates directory \<^verbatim>\<open>C2\<close>;
  directory \<^verbatim>\<open>C1\<close> is not named and stays.\<close>

theorem mergeUpdates_marker_free_witness:
  "session_at (mergeUpdates example_state
       [\<lparr>upd_workingDirectories = Some [(''C2'', directory_record ''C2'' ''/b'')],
         upd_sessions = Some [(''S1'', Null)]\<rparr>]) ''S1'' = None
 \<and> directory_at (mergeUpdates example_state
       [\<lparr>upd_workingDirectories = Some [(''C2'', directory_record ''C2'' ''/b'')],
         upd_sessions = Some [(''S1'', Null)]\<rparr>]) ''C2'' = Some (directory_record ''C2'' ''/b'')
 \<and> directory_at (mergeUpdates example_state
       [\<lparr>upd_workingDirectories = Some [(''C2'', directory_record ''C2'' ''/b'')],
         upd_sessions = Some [(''S1'', Null)]\<rparr>]) ''C1'' = Some (directory_record ''C1'' ''/a'')"
proof -
  let ?u = "\<lparr>upd_workingDirectories = Some [(''C2'', directory_record ''C2'' ''/b'')],
         upd_sessions = Some [(''S1'', Null)]\<rparr>"
  have m1: "marker_free (upd_workingDirectories ?u)"
    by (simp add: marker_free_def is_object_def carries_marker_def get_prop_def REPLACE_ALL_def directory_record_def)
  have m2: "marker_free (upd_sessions ?u)"
    by (simp add: marker_free_def is_object_def carries_marker_def get_prop_def REPLACE_ALL_def)
  have k: "''S1'' \<noteq> PROTO" "''C2'' \<noteq> PROTO" "''C1'' \<noteq> PROTO"
    by (simp_all add: PROTO_def)
  have a: "session_at (mergeUpdates example_state [?u]) ''S1''
             = per_key_rule [(''S1'', Null)] (session_at example_state) ''S1''"
    using mergeUpdates_marker_free [OF m1 m2 k(1), of example_state] by simp
  have b: "directory_at (mergeUpdates example_state [?u]) ''C2''
             = per_key_rule [(''C2'', directory_record ''C2'' ''/b'')] (directory_at example_state) ''C2''"
    using mergeUpdates_marker_free [OF m1 m2 k(2), of example_state] by simp
  have c: "directory_at (mergeUpdates example_state [?u]) ''C1''
             = per_key_rule [(''C2'', directory_record ''C2'' ''/b'')] (directory_at example_state) ''C1''"
    using mergeUpdates_marker_free [OF m1 m2 k(3), of example_state] by simp
  show ?thesis
    unfolding a b c
    by (simp add: per_key_rule_def directory_record_def directory_at_def example_state_def)
qed

section \<open>Merging a batch\<close>

lemma sessions_mergeUpdates:
  "sessions (mergeUpdates s us)
     = Obj (fst (fold (\<lambda>u. merge_sessions (upd_sessions u)) us (own_entries (sessions s), None)))"
  by (simp add: mergeUpdates_def Let_def fold_merge_update)

lemma workingDirectories_mergeUpdates:
  "workingDirectories (mergeUpdates s us)
     = Obj (fst (fold (\<lambda>u. merge_workingDirectories (upd_workingDirectories u)) us
                   (own_entries (workingDirectories s), None)))"
  by (simp add: mergeUpdates_def Let_def fold_merge_update)





lemma edit_sessions_replace:
  "carries_marker rs \<Longrightarrow> edit_sessions (Some rs) r = AList.delete REPLACE_ALL rs"
  by (simp add: edit_sessions_def carries_marker_def)

lemma fold_merge_sessions_untouched:
  "\<forall>u \<in> set us. upd_sessions u = None \<Longrightarrow> fold (\<lambda>u. merge_sessions (upd_sessions u)) us t = t"
  by (induction us arbitrary: t) (simp_all add: merge_sessions_def)

lemma fold_merge_directories_untouched:
  "\<forall>u \<in> set us. upd_workingDirectories u = None \<Longrightarrow>
   fold (\<lambda>u. merge_workingDirectories (upd_workingDirectories u)) us t = t"
  by (induction us arbitrary: t) (simp_all add: merge_workingDirectories_def)

lemma merge_sessions_replace:
  "carries_marker rs \<Longrightarrow> merge_sessions (Some rs) t = (AList.delete REPLACE_ALL rs, None)"
  by (simp add: merge_sessions_def carries_marker_def)

lemma merge_workingDirectories_replace:
  "carries_marker rs \<Longrightarrow> merge_workingDirectories (Some rs) t = (AList.delete REPLACE_ALL rs, None)"
  by (simp add: merge_workingDirectories_def carries_marker_def)

text \<open>
  In a batch where a fragment \<open>R\<close> carrying the replace-all marker for a category is
  followed by a later fragment \<open>L\<close> naming individual keys of the same category (and no
  other fragment after \<open>R\<close> touches the category), the merged category is, at every key
  other than \<^verbatim>\<open>__proto__\<close>, the explicit entries of \<open>R\<close> with the edits of \<open>L\<close> applied
  on top, whatever the base snapshot and the earlier fragments were.
\<close>

lemma replace_all_then_edit:
  "(upd_sessions R = Some rs \<and> carries_marker rs
      \<and> upd_sessions L = Some ls \<and> is_object ls \<and> \<not> carries_marker ls
      \<and> (\<forall>u \<in> set mid \<union> set post. upd_sessions u = None) \<and> k \<noteq> PROTO
    \<longrightarrow> session_at (mergeUpdates s (pre @ [R] @ mid @ [L] @ post)) k
          = per_key_rule ls (map_of (AList.delete REPLACE_ALL rs)) k)
 \<and> (upd_workingDirectories R = Some rd \<and> carries_marker rd
      \<and> upd_workingDirectories L = Some ld \<and> is_object ld \<and> \<not> carries_marker ld \<and> ld \<noteq> []
      \<and> (\<forall>u \<in> set mid \<union> set post. upd_workingDirectories u = None) \<and> k \<noteq> PROTO
    \<longrightarrow> directory_at (mergeUpdates s (pre @ [R] @ mid @ [L] @ post)) k
          = per_key_rule ld (map_of (AList.delete REPLACE_ALL rd)) k)"
proof (intro conjI impI)
  assume a: "upd_sessions R = Some rs \<and> carries_marker rs
      \<and> upd_sessions L = Some ls \<and> is_object ls \<and> \<not> carries_marker ls
      \<and> (\<forall>u \<in> set mid \<union> set post. upd_sessions u = None) \<and> k \<noteq> PROTO"
  then have m: "fold (\<lambda>u. merge_sessions (upd_sessions u)) mid = (\<lambda>t. t)"
    and p: "fold (\<lambda>u. merge_sessions (upd_sessions u)) post = (\<lambda>t. t)"
    by (auto simp: fold_merge_sessions_untouched)
  from a show "session_at (mergeUpdates s (pre @ [R] @ mid @ [L] @ post)) k
          = per_key_rule ls (map_of (AList.delete REPLACE_ALL rs)) k"
    using merge_sessions_marker_free[of ls k "(AList.delete REPLACE_ALL rs, None)"]
    by (simp add: session_at_def sessions_mergeUpdates m p merge_sessions_replace)
next
  assume a: "upd_workingDirectories R = Some rd \<and> carries_marker rd
      \<and> upd_workingDirectories L = Some ld \<and> is_object ld \<and> \<not> carries_marker ld \<and> ld \<noteq> []
      \<and> (\<forall>u \<in> set mid \<union> set post. upd_workingDirectories u = None) \<and> k \<noteq> PROTO"
  then have m: "fold (\<lambda>u. merge_workingDirectories (upd_workingDirectories u)) mid = (\<lambda>t. t)"
    and p: "fold (\<lambda>u. merge_workingDirectories (upd_workingDirectories u)) post = (\<lambda>t. t)"
    by (auto simp: fold_merge_directories_untouched)
  from a show "directory_at (mergeUpdates s (pre @ [R] @ mid @ [L] @ post)) k
          = per_key_rule ld (map_of (AList.delete REPLACE_ALL rd)) k"
    using merge_workingDirectories_marker_free[of ld k "(AList.delete REPLACE_ALL rd, None)"]
    by (simp add: directory_at_def workingDirectories_mergeUpdates m p
        merge_workingDirectories_replace)
qed

text \<open>
  Claim C2 speaks of every batch and every key the later fragment names. Take the sweep
  that keeps \<^verbatim>\<open>S2\<close>, followed in the same batch by a fragment that stores a session under
  the key \<^verbatim>\<open>__proto__\<close>. The explicit entries of the sweep with that edit on top have a
  session under \<^verbatim>\<open>__proto__\<close>; the merged category has none: the assignment
  \<^verbatim>\<open>result.sessions[key] = session\<close> has changed the prototype of the map instead of
  storing the session. An edit under any other key survives (\<^verbatim>\<open>S3\<close> here).
\<close>

theorem replace_all_then_proto_edit_lost:
  "carries_marker [(REPLACE_ALL, Bool True),
                   (''S2'', session_record ''U2'' ''C1'' ''2025-08-12T14:58:00.000Z'')]
 \<and> per_key_rule [(PROTO, session_record ''U4'' ''C1'' ''2025-08-12T14:59:30.000Z'')]
      (map_of (AList.delete REPLACE_ALL
         [(REPLACE_ALL, Bool True),
          (''S2'', session_record ''U2'' ''C1'' ''2025-08-12T14:58:00.000Z'')])) PROTO
     = Some (session_record ''U4'' ''C1'' ''2025-08-12T14:59:30.000Z'')
 \<and> session_at (mergeUpdates example_state [sweep_fragment, proto_fragment]) PROTO = None
 \<and> session_at (mergeUpdates example_state [sweep_fragment, proto_fragment]) ''S2''
     = Some (session_record ''U2'' ''C1'' ''2025-08-12T14:58:00.000Z'')
 \<and> session_at (mergeUpdates example_state [sweep_fragment, edit_fragment]) ''S3''
     = Some (session_record ''U3'' ''C1'' ''2025-08-12T14:59:00.000Z'')"
  by (simp add: carries_marker_def get_prop_def per_key_rule_def session_at_def mergeUpdates_def
      merge_update_def merge_workingDirectories_def merge_sessions_def merge_entry_def assign_def
      reaches_setter_def sweep_fragment_def proto_fragment_def edit_fragment_def example_state_def
      PROTO_def REPLACE_ALL_def session_record_def)

text \<open>The merged sessions of that batch hold nothing under \<^verbatim>\<open>__proto__\<close>, where the entries
  of the sweep with the edit on top hold the session of the later fragment.\<close>

theorem replace_all_then_proto_edit_lost_witness:
  "session_at (mergeUpdates example_state [sweep_fragment, proto_fragment]) PROTO
     \<noteq> per_key_rule [(PROTO, session_record ''U4'' ''C1'' ''2025-08-12T14:59:30.000Z'')]
         (map_of (AList.delete REPLACE_ALL
            [(REPLACE_ALL, Bool True),
             (''S2'', session_record ''U2'' ''C1'' ''2025-08-12T14:58:00.000Z'')])) PROTO"
  using replace_all_then_proto_edit_lost by simp

section \<open>The loader\<close>

lemma log_line_fields:
  "filePath (log_line l s) = filePath s"
  "backupPath (log_line l s) = backupPath s"
  "saveTimeout (log_line l s) = saveTimeout s"
  "pendingUpdates (log_line l s) = pendingUpdates s"
  "isWriting (log_line l s) = isWriting s"
  "writeLock (log_line l s) = writeLock s"
  "nodes (log_line l s) = nodes s"
  "refused (log_line l s) = refused s"
  "journal (log_line l s) = journal s"
  "microtasks (log_line l s) = microtasks s"
  "logged (log_line l s) = logged s @ [l]"
  by (simp_all add: log_line_def)

lemma existsSync_log_line: "existsSync (log_line l s) p = existsSync s p"
  by (simp add: existsSync_def log_line_fields)

lemma readFileSync_log_line: "readFileSync (log_line l s) p = readFileSync s p"
  by (simp add: readFileSync_def log_line_fields)

lemma validate_file_log_line: "validate_file now (log_line l s) p = validate_file now s p"
  by (simp add: validate_file_def readFileSync_log_line)

lemma typeof_js_or_Obj: "typeof (js_or v (Obj [])) = TObject \<longleftrightarrow> category_ok v"
  by (cases v) (simp_all add: js_or_def category_ok_def)

lemma validate_file_JsonText:
  "nodes s p = Some (File (JsonText v)) \<Longrightarrow> \<not> refused s (Read p) \<Longrightarrow>
   validate_file now s p =
     (if \<not> (truthy v \<and> typeof v = TObject) then Inl InvalidJSONStructure
      else if acceptable v then Inr (snapshot_of now v) else Inl InvalidStateStructure)"
  by (simp add: validate_file_def readFileSync_def JSON_parse_def Let_def acceptable_def
      snapshot_of_def typeof_js_or_Obj)

lemma validate_file_Inr_iff:
  "validate_file now s p = Inr st \<longleftrightarrow>
     (\<not> refused s (Read p) \<and> (\<exists>v. nodes s p = Some (File (JsonText v)) \<and> acceptable v \<and> st = snapshot_of now v))"
proof (cases "refused s (Read p)")
  case True
  then show ?thesis by (simp add: validate_file_def readFileSync_def)
next
  case False
  show ?thesis
  proof (cases "nodes s p")
    case None
    then show ?thesis using False by (simp add: validate_file_def readFileSync_def)
  next
    case (Some n)
    show ?thesis
    proof (cases n)
      case Dir
      then show ?thesis using False Some by (simp add: validate_file_def readFileSync_def)
    next
      case (File c)
      show ?thesis
      proof (cases c)
        case (NotJson t)
        then show ?thesis using False Some File
          by (simp add: validate_file_def readFileSync_def JSON_parse_def)
      next
        case (JsonText v)
        then show ?thesis using False Some File validate_file_JsonText[of s p v now]
          by (auto simp: acceptable_def)
      qed
    qed
  qed
qed

lemma primary_accepted_iff:
  "primary_accepted s \<longleftrightarrow> (\<exists>st. validate_file now s (filePath s) = Inr st)"
  by (auto simp: primary_accepted_def validate_file_Inr_iff split: option.splits node.splits filetext.splits)

lemma backup_accepted_iff:
  "backup_accepted s \<longleftrightarrow> (\<exists>st. validate_file now s (backupPath s) = Inr st)"
  by (auto simp: backup_accepted_def validate_file_Inr_iff split: option.splits node.splits filetext.splits)

lemma primary_accepted_validate:
  "primary_accepted s \<Longrightarrow> validate_file now s (filePath s) = Inr (primary_snapshot now s)"
  by (auto simp: primary_accepted_def primary_snapshot_def validate_file_Inr_iff
      split: option.splits node.splits filetext.splits)

lemma validate_Inr_exists: "validate_file now s p = Inr st \<Longrightarrow> existsSync s p"
  by (auto simp: validate_file_Inr_iff existsSync_def)

lemma loadState_accepted:
  assumes "validate_file now s (filePath s) = Inr st"
  shows "loadState now s = (st, log_line (Info ''Loaded bot state'') s)"
  using assms validate_Inr_exists[OF assms]
  by (simp add: loadState_def loadAndValidateFile_def Let_def)

lemma loadState_rejected:
  assumes "validate_file now s (filePath s) = Inl e"
  shows "loadState now s =
           load_backup now (if existsSync s (filePath s)
                            then log_line (Warn (''Failed to load state file '' @ filePath s)) s else s)"
  using assms by (simp add: loadState_def loadAndValidateFile_def Let_def)

lemma copyFileSync_log_line:
  "copyFileSync (log_line l s) a b = map_sum id (log_line l) (copyFileSync s a b)"
  by (simp add: copyFileSync_def log_line_def split: option.splits node.splits)

lemma copyFileSync_ok:
  "nodes s a = Some (File c) \<Longrightarrow> \<not> refused s (Copy a b) \<Longrightarrow> nodes s b \<noteq> Some Dir \<Longrightarrow>
   copyFileSync s a b = Inr (s\<lparr>nodes := (nodes s)(b \<mapsto> File c), journal := journal s @ [Copy a b]\<rparr>)"
  by (simp add: copyFileSync_def split: option.splits node.splits)

lemma copyFileSync_fails:
  "refused s (Copy a b) \<or> nodes s b = Some Dir \<Longrightarrow> \<exists>e. copyFileSync s a b = Inl e"
  by (auto simp: copyFileSync_def split: option.splits node.splits)

lemma validate_Inr_file:
  "validate_file now s p = Inr st \<Longrightarrow> \<exists>c. nodes s p = Some (File c)"
  by (auto simp: validate_file_Inr_iff)

text \<open>Logging does not change what the fallback returns or does to the disk.\<close>

lemma load_backup_log_line:
  "fst (load_backup now (log_line l s)) = fst (load_backup now s)
 \<and> nodes (snd (load_backup now (log_line l s))) = nodes (snd (load_backup now s))
 \<and> journal (snd (load_backup now (log_line l s))) = journal (snd (load_backup now s))
 \<and> pendingUpdates (snd (load_backup now (log_line l s))) = pendingUpdates (snd (load_backup now s))"
  by (cases "validate_file now s (backupPath s)"; cases "copyFileSync s (backupPath s) (filePath s)")
     (simp_all add: load_backup_def Let_def existsSync_log_line loadAndValidateFile_def
      validate_file_log_line log_line_fields copyFileSync_log_line)

lemma load_backup_promote:
  assumes "validate_file now s (backupPath s) = Inr st" and "promotion_possible s"
  shows "fst (load_backup now s) = st"
    and "nodes (snd (load_backup now s)) = (nodes s)(filePath s := nodes s (backupPath s))"
    and "journal (snd (load_backup now s)) = journal s @ [Copy (backupPath s) (filePath s)]"
proof -
  from validate_Inr_file[OF assms(1)] obtain c where c: "nodes s (backupPath s) = Some (File c)" by blast
  have e: "existsSync s (backupPath s)" using c by (simp add: existsSync_def)
  have cp: "copyFileSync s (backupPath s) (filePath s) =
            Inr (s\<lparr>nodes := (nodes s)(filePath s \<mapsto> File c),
                   journal := journal s @ [Copy (backupPath s) (filePath s)]\<rparr>)"
    using c assms(2) by (simp add: copyFileSync_ok promotion_possible_def)
  show "fst (load_backup now s) = st"
    using e assms(1) cp
    by (simp add: load_backup_def Let_def loadAndValidateFile_def validate_file_log_line
        log_line_fields copyFileSync_log_line)
  show "nodes (snd (load_backup now s)) = (nodes s)(filePath s := nodes s (backupPath s))"
    using e assms(1) cp c
    by (simp add: load_backup_def Let_def loadAndValidateFile_def validate_file_log_line
        log_line_fields copyFileSync_log_line)
  show "journal (snd (load_backup now s)) = journal s @ [Copy (backupPath s) (filePath s)]"
    using e assms(1) cp c
    by (simp add: load_backup_def Let_def loadAndValidateFile_def validate_file_log_line
        log_line_fields copyFileSync_log_line)
qed

lemma load_backup_no_promote:
  assumes "validate_file now s (backupPath s) = Inr st" and "\<not> promotion_possible s"
  shows "fst (load_backup now s) = getEmptyState now"
    and "nodes (snd (load_backup now s)) = nodes s"
    and "journal (snd (load_backup now s)) = journal s"
proof -
  from validate_Inr_file[OF assms(1)] obtain c where c: "nodes s (backupPath s) = Some (File c)" by blast
  have e: "existsSync s (backupPath s)" using c by (simp add: existsSync_def)
  obtain err where cp: "copyFileSync s (backupPath s) (filePath s) = Inl err"
    using copyFileSync_fails[of s "backupPath s" "filePath s"] assms(2)
    by (auto simp: promotion_possible_def)
  show "fst (load_backup now s) = getEmptyState now"
    using e assms(1) cp
    by (simp add: load_backup_def Let_def loadAndValidateFile_def validate_file_log_line
        log_line_fields copyFileSync_log_line)
  show "nodes (snd (load_backup now s)) = nodes s"
    using e assms(1) cp
    by (simp add: load_backup_def Let_def loadAndValidateFile_def validate_file_log_line
        log_line_fields copyFileSync_log_line)
  show "journal (snd (load_backup now s)) = journal s"
    using e assms(1) cp
    by (simp add: load_backup_def Let_def loadAndValidateFile_def validate_file_log_line
        log_line_fields copyFileSync_log_line)
qed

lemma load_backup_invalid:
  assumes "validate_file now s (backupPath s) = Inl e"
  shows "fst (load_backup now s) = getEmptyState now"
    and "nodes (snd (load_backup now s)) = nodes s"
    and "journal (snd (load_backup now s)) = journal s"
  using assms
  by (simp_all add: load_backup_def Let_def loadAndValidateFile_def validate_file_log_line
        log_line_fields)

lemma loadState_not_accepted:
  assumes "\<not> primary_accepted s"
  shows "fst (loadState now s) = fst (load_backup now s)"
    and "nodes (snd (loadState now s)) = nodes (snd (load_backup now s))"
    and "journal (snd (loadState now s)) = journal (snd (load_backup now s))"
proof -
  from assms obtain e where e: "validate_file now s (filePath s) = Inl e"
    using primary_accepted_iff[of s now] by (cases "validate_file now s (filePath s)") auto
  show "fst (loadState now s) = fst (load_backup now s)"
    "nodes (snd (loadState now s)) = nodes (snd (load_backup now s))"
    "journal (snd (loadState now s)) = journal (snd (load_backup now s))"
    by (simp_all add: loadState_rejected[OF e] load_backup_log_line)
qed

lemma example_state_text:
  "JSON_stringify (state_value example_state) = JsonText (state_value example_state)"
  by (simp add: JSON_stringify_def state_value_def example_state_def directory_record_def
      session_record_def)

lemma acceptable_example: "acceptable (state_value example_state)"
  by (simp add: acceptable_def state_value_def example_state_def get_prop_def category_ok_def)

lemma snapshot_of_example: "snapshot_of now (state_value example_state) = example_state"
  by (simp add: snapshot_of_def state_value_def example_state_def get_prop_def js_or_def)


text \<open>
  Claim C4 promises the backup's snapshot whenever the main file is corrupt and the
  backup validates. Take a main file holding \<^verbatim>\<open>not json\<close> that may not be overwritten
  (the copy onto it is refused). The backup validates and holds session \<^verbatim>\<open>S1\<close>, and the
  loader has read and validated it; yet the loader returns the empty state, without
  \<^verbatim>\<open>S1\<close>, and the main file still holds \<^verbatim>\<open>not json\<close>: the exception of the copy has
  taken the validated snapshot with it.
\<close>

theorem loadState_discards_valid_backup:
  "existsSync protected_primary (filePath protected_primary)
 \<and> nodes protected_primary (filePath protected_primary) = Some (File (NotJson ''not json''))
 \<and> validate_file ''now'' protected_primary (backupPath protected_primary) = Inr example_state
 \<and> session_at example_state ''S1'' \<noteq> None
 \<and> fst (loadState ''now'' protected_primary) = getEmptyState ''now''
 \<and> session_at (fst (loadState ''now'' protected_primary)) ''S1'' = None
 \<and> nodes (snd (loadState ''now'' protected_primary)) (filePath protected_primary)
     = Some (File (NotJson ''not json''))"
proof -
  have f: "filePath protected_primary = ''bot-state.json''"
    "backupPath protected_primary = ''bot-state.json.backup''"
    by (simp_all add: protected_primary_def corrupted_primary_def new_manager_def)
  have n: "nodes protected_primary ''bot-state.json'' = Some (File (NotJson ''not json''))"
    "nodes protected_primary ''bot-state.json.backup'' = Some (File (JsonText (state_value example_state)))"
    by (simp_all add: protected_primary_def corrupted_primary_def new_manager_def disk_of_def
        example_state_text)
  have r: "\<not> refused protected_primary (Read p)" for p
    by (simp add: protected_primary_def corrupted_primary_def new_manager_def)
  have v: "validate_file ''now'' protected_primary (backupPath protected_primary) = Inr example_state"
    using n r by (simp add: f validate_file_JsonText acceptable_example snapshot_of_example)
       (simp add: state_value_def)
  have na: "\<not> primary_accepted protected_primary"
    by (simp add: primary_accepted_def f n)
  have np: "\<not> promotion_possible protected_primary"
    by (simp add: promotion_possible_def f) (simp add: protected_primary_def)
  have l: "fst (loadState ''now'' protected_primary) = getEmptyState ''now''"
    "nodes (snd (loadState ''now'' protected_primary)) = nodes protected_primary"
    using na v np by (simp_all add: loadState_not_accepted load_backup_no_promote)
  show ?thesis
    using v by (simp add: l f n existsSync_def)
       (simp add: session_at_def getEmptyState_def example_state_def)
qed

text \<open>The snapshot returned is not the snapshot of the backup.\<close>

theorem loadState_discards_valid_backup_witness:
  "validate_file ''now'' protected_primary (backupPath protected_primary) = Inr example_state
 \<and> fst (loadState ''now'' protected_primary) \<noteq> example_state"
  using loadState_discards_valid_backup
  by (simp add: getEmptyState_def example_state_def)





section \<open>The atomic writer\<close>

lemma tmp_neq: "p @ ''.tmp'' \<noteq> p"
  by simp



lemma writeFileSync_paths:
  "writeFileSync s p c = Inr s' \<Longrightarrow> filePath s' = filePath s \<and> backupPath s' = backupPath s"
  by (auto simp: writeFileSync_def split: if_splits option.splits node.splits)

lemma copyFileSync_paths:
  "copyFileSync s a b = Inr s' \<Longrightarrow> filePath s' = filePath s \<and> backupPath s' = backupPath s"
  by (auto simp: copyFileSync_def split: if_splits option.splits node.splits)


lemma flags_of_fields [simp]:
  "filePath (flags_of m s) = filePath s"
  "backupPath (flags_of m s) = backupPath s"
  "pendingUpdates (flags_of m s) = pendingUpdates s"
  "nodes (flags_of m s) = nodes s"
  "refused (flags_of m s) = refused s"
  "journal (flags_of m s) = journal s"
  "logged (flags_of m s) = logged s"
  "saveTimeout (flags_of m s) = saveTimeout m"
  "isWriting (flags_of m s) = isWriting m"
  "writeLock (flags_of m s) = writeLock m"
  "microtasks (flags_of m s) = microtasks m"
  by (simp_all add: flags_of_def)

lemma log_line_flags: "log_line l (flags_of m s) = flags_of m (log_line l s)"
  by (simp add: flags_of_def log_line_def)

lemma existsSync_flags: "existsSync (flags_of m s) p = existsSync s p"
  by (simp add: flags_of_def existsSync_def)

lemma readFileSync_flags: "readFileSync (flags_of m s) p = readFileSync s p"
  by (simp add: flags_of_def readFileSync_def)

lemma validate_file_flags: "validate_file now (flags_of m s) p = validate_file now s p"
  by (simp add: validate_file_def readFileSync_flags)

lemma writeFileSync_flags:
  "writeFileSync (flags_of m s) p c = map_sum id (flags_of m) (writeFileSync s p c)"
  by (simp add: flags_of_def writeFileSync_def split: option.splits node.splits)

lemma copyFileSync_flags:
  "copyFileSync (flags_of m s) p q = map_sum id (flags_of m) (copyFileSync s p q)"
  by (simp add: flags_of_def copyFileSync_def split: option.splits node.splits)

lemma renameSync_flags:
  "renameSync (flags_of m s) p q = map_sum id (flags_of m) (renameSync s p q)"
  by (simp add: flags_of_def renameSync_def split: option.splits node.splits)

lemma loadAndValidateFile_flags:
  "loadAndValidateFile now (flags_of m s) p
     = apsnd (flags_of m) (loadAndValidateFile now s p)"
  by (simp add: loadAndValidateFile_def validate_file_flags log_line_flags split: sum.splits)

lemma load_backup_flags:
  "load_backup now (flags_of m s) = apsnd (flags_of m) (load_backup now s)"
  by (cases "validate_file now s (backupPath s)"; cases "copyFileSync s (backupPath s) (filePath s)")
     (simp_all add: load_backup_def Let_def existsSync_flags existsSync_log_line
       loadAndValidateFile_def validate_file_flags validate_file_log_line log_line_flags
       copyFileSync_flags copyFileSync_log_line log_line_fields)

lemma loadState_flags:
  "loadState now (flags_of m s) = apsnd (flags_of m) (loadState now s)"
  by (cases "validate_file now s (filePath s)")
     (simp_all add: loadState_def Let_def existsSync_flags loadAndValidateFile_def
       validate_file_flags log_line_flags load_backup_flags)

lemma atomic_write_flags:
  "atomic_write (flags_of m s) c
     = map_sum (apsnd (flags_of m)) (flags_of m) (atomic_write s c)"
proof (cases "writeFileSync s (filePath s @ ''.tmp'') c")
  case (Inl e)
  then show ?thesis by (simp add: atomic_write_def Let_def writeFileSync_flags)
next
  case (Inr s1)
  note p = writeFileSync_paths[OF Inr]
  show ?thesis
  proof (cases "existsSync s1 (filePath s1)")
    case False
    then show ?thesis using Inr p
      by (cases "renameSync s1 (filePath s @ ''.tmp'') (filePath s)")
         (simp_all add: atomic_write_def Let_def writeFileSync_flags existsSync_flags
           renameSync_flags)
  next
    case True
    show ?thesis
    proof (cases "copyFileSync s1 (filePath s1) (backupPath s1)")
      case (Inl e)
      then show ?thesis using Inr p True
        by (simp add: atomic_write_def Let_def writeFileSync_flags existsSync_flags
           copyFileSync_flags)
    next
      case c: (Inr s2)
      note q = copyFileSync_paths[OF c]
      show ?thesis using Inr p True c q
        by (cases "renameSync s2 (filePath s @ ''.tmp'') (filePath s)")
           (simp_all add: atomic_write_def Let_def writeFileSync_flags existsSync_flags
             copyFileSync_flags renameSync_flags)
    qed
  qed
qed

lemma try_save_flags:
  "try_save now (flags_of m s)
     = map_sum (apsnd (flags_of m)) (flags_of m) (try_save now s)"
proof -
  obtain st s0 where l: "loadState now s = (st, s0)" by (cases "loadState now s")
  have u: "(flags_of m s0)\<lparr>pendingUpdates := []\<rparr> = flags_of m (s0\<lparr>pendingUpdates := []\<rparr>)"
    by (simp add: flags_of_def)
  have v: "pendingUpdates (flags_of m s0) = pendingUpdates s0" "filePath (flags_of m x) = filePath x"
    "backupPath (flags_of m x) = backupPath x" for x
    by (simp_all add: flags_of_def)
  show ?thesis
    by (simp add: try_save_def Let_def loadState_flags l u v atomic_write_flags)
qed

lemma performSave_flags:
  "performSave now (flags_of m s) = flags_of m (performSave now s)"
  by (cases "try_save now s")
     (auto simp: performSave_def try_save_flags log_line_flags)

lemma same_manager_refl [simp]: "same_manager s s"
  by (simp add: same_manager_def)

lemma same_manager_trans: "same_manager a b \<Longrightarrow> same_manager b c \<Longrightarrow> same_manager a c"
  by (simp add: same_manager_def)

lemma same_manager_log_line [simp]: "same_manager (log_line l s) s"
  by (simp add: same_manager_def log_line_def)

lemma same_manager_writeFileSync: "writeFileSync s p c = Inr s' \<Longrightarrow> same_manager s' s"
  by (auto simp: writeFileSync_def same_manager_def split: if_splits option.splits node.splits)

lemma same_manager_copyFileSync: "copyFileSync s p q = Inr s' \<Longrightarrow> same_manager s' s"
  by (auto simp: copyFileSync_def same_manager_def split: if_splits option.splits node.splits)

lemma same_manager_renameSync: "renameSync s p q = Inr s' \<Longrightarrow> same_manager s' s"
  by (auto simp: renameSync_def same_manager_def split: if_splits option.splits node.splits)

lemma same_manager_load_backup: "same_manager (snd (load_backup now s)) s"
proof (cases "copyFileSync s (backupPath s) (filePath s)")
  case (Inl e)
  then show ?thesis
    by (cases "validate_file now s (backupPath s)")
       (simp_all add: load_backup_def Let_def loadAndValidateFile_def validate_file_log_line
         log_line_fields copyFileSync_log_line same_manager_def)
next
  case (Inr s2)
  from same_manager_copyFileSync[OF Inr] show ?thesis using Inr
    by (cases "validate_file now s (backupPath s)")
       (simp_all add: load_backup_def Let_def loadAndValidateFile_def validate_file_log_line
         log_line_fields copyFileSync_log_line same_manager_def)
qed

lemma same_manager_loadState: "same_manager (snd (loadState now s)) s"
proof (cases "validate_file now s (filePath s)")
  case (Inl e)
  have "same_manager (snd (load_backup now (log_line l s))) s" for l
    using same_manager_load_backup[of now "log_line l s"]
    by (simp add: same_manager_def log_line_fields)
  then show ?thesis using Inl same_manager_load_backup[of now s]
    by (simp add: loadState_rejected)
next
  case (Inr st)
  then show ?thesis by (simp add: loadState_accepted)
qed

lemma same_manager_atomic_write:
  "atomic_write s c = Inr s' \<Longrightarrow> same_manager s' s"
  "atomic_write s c = Inl f \<Longrightarrow> same_manager (snd f) s"
  by (auto simp: atomic_write_def Let_def split: sum.splits if_splits
      dest!: same_manager_writeFileSync same_manager_copyFileSync same_manager_renameSync
      intro: same_manager_trans)

lemma performSave_fields:
  "filePath (performSave now s) = filePath s"
  "backupPath (performSave now s) = backupPath s"
  "saveTimeout (performSave now s) = saveTimeout s"
  "isWriting (performSave now s) = isWriting s"
  "writeLock (performSave now s) = writeLock s"
  "refused (performSave now s) = refused s"
  "microtasks (performSave now s) = microtasks s"
  "pendingUpdates (performSave now s) = []"
proof -
  let ?s1 = "(snd (loadState now s))\<lparr>pendingUpdates := []\<rparr>"
  let ?c = "JSON_stringify (state_value (snapshot_to_write now (fst (loadState now s))
              (pendingUpdates (snd (loadState now s)))))"
  have t: "try_save now s = atomic_write ?s1 ?c" by (simp add: try_save_def Let_def)
  have m: "same_manager (performSave now s) ?s1"
    using same_manager_atomic_write[of ?s1 ?c]
    by (cases "atomic_write ?s1 ?c") (auto simp: performSave_def t same_manager_def log_line_fields)
  with same_manager_loadState[of now s]
  show "filePath (performSave now s) = filePath s"
  "backupPath (performSave now s) = backupPath s"
  "saveTimeout (performSave now s) = saveTimeout s"
  "isWriting (performSave now s) = isWriting s"
  "writeLock (performSave now s) = writeLock s"
  "refused (performSave now s) = refused s"
  "microtasks (performSave now s) = microtasks s"
  "pendingUpdates (performSave now s) = []"
    by (simp_all add: same_manager_def)
qed

lemma performSave_update:
  "performSave now (s\<lparr>isWriting := b\<rparr>) = (performSave now s)\<lparr>isWriting := b\<rparr>"
  "performSave now (s\<lparr>writeLock := b\<rparr>) = (performSave now s)\<lparr>writeLock := b\<rparr>"
  "performSave now (s\<lparr>microtasks := q\<rparr>) = (performSave now s)\<lparr>microtasks := q\<rparr>"
  "performSave now (s\<lparr>saveTimeout := t\<rparr>) = (performSave now s)\<lparr>saveTimeout := t\<rparr>"
proof -
  have a: "s\<lparr>isWriting := b\<rparr> = flags_of (s\<lparr>isWriting := b\<rparr>) s"
    "s\<lparr>writeLock := b\<rparr> = flags_of (s\<lparr>writeLock := b\<rparr>) s"
    "s\<lparr>microtasks := q\<rparr> = flags_of (s\<lparr>microtasks := q\<rparr>) s"
    "s\<lparr>saveTimeout := t\<rparr> = flags_of (s\<lparr>saveTimeout := t\<rparr>) s"
    by (simp_all add: flags_of_def)
  have "performSave now (flags_of (s\<lparr>isWriting := b\<rparr>) s) = (performSave now s)\<lparr>isWriting := b\<rparr>"
    unfolding performSave_flags
    by (rule system.equality) (simp_all add: performSave_fields)
  then show "performSave now (s\<lparr>isWriting := b\<rparr>) = (performSave now s)\<lparr>isWriting := b\<rparr>"
    using a(1) by simp
  have "performSave now (flags_of (s\<lparr>writeLock := b\<rparr>) s) = (performSave now s)\<lparr>writeLock := b\<rparr>"
    unfolding performSave_flags
    by (rule system.equality) (simp_all add: performSave_fields)
  then show "performSave now (s\<lparr>writeLock := b\<rparr>) = (performSave now s)\<lparr>writeLock := b\<rparr>"
    using a(2) by simp
  have "performSave now (flags_of (s\<lparr>microtasks := q\<rparr>) s) = (performSave now s)\<lparr>microtasks := q\<rparr>"
    unfolding performSave_flags
    by (rule system.equality) (simp_all add: performSave_fields)
  then show "performSave now (s\<lparr>microtasks := q\<rparr>) = (performSave now s)\<lparr>microtasks := q\<rparr>"
    using a(3) by simp
  have "performSave now (flags_of (s\<lparr>saveTimeout := t\<rparr>) s) = (performSave now s)\<lparr>saveTimeout := t\<rparr>"
    unfolding performSave_flags
    by (rule system.equality) (simp_all add: performSave_fields)
  then show "performSave now (s\<lparr>saveTimeout := t\<rparr>) = (performSave now s)\<lparr>saveTimeout := t\<rparr>"
    using a(4) by simp
qed

section \<open>The event loop\<close>

lemma drain_Nil: "microtasks s = [] \<Longrightarrow> drain now s = Some s"
  by (subst drain.simps) simp

lemma drain_Cons:
  "microtasks s = c # cs \<Longrightarrow> drain now s = drain now (resume now c (s\<lparr>microtasks := cs\<rparr>))"
  by (subst drain.simps) simp


lemma settled_quiescent: "quiescent s \<Longrightarrow> settled now s = s"
  by (simp add: quiescent_def settled_def)

text \<open>
  The event loop ends from every consistent state, and what it leaves is known: if a flush
  is waiting and updates are pending, one save takes them all; in any case the flag is
  released.
\<close>

theorem drain_consistent:
  assumes "consistent s"
  shows "drain now s = Some (settled now s)"
proof -
  have "wf (measures [waiting, \<lambda>s. length (microtasks s), owner_distance])" by simp
  then show ?thesis using assms
  proof (induction s rule: wf_induct_rule)
  case (less s)
  note IH = less.IH and inv = less.prems
  show ?case
  proof (cases "microtasks s")
    case Nil
    then have "quiescent s" using inv by (auto simp: consistent_def quiescent_def)
    then show ?thesis using Nil by (simp add: drain_Nil settled_quiescent)
  next
    case (Cons c cs)
    show ?thesis
    proof (cases c)
      case Owner
      let ?n = "s\<lparr>microtasks := cs, isWriting := False, writeLock := False\<rparr>"
      have r: "resume now c (s\<lparr>microtasks := cs\<rparr>) = ?n" using Owner by (simp add: resume_def)
      have less: "(?n, s) \<in> measures [waiting, \<lambda>s. length (microtasks s), owner_distance]"
        using Cons Owner by (simp add: waiting_def)
      have c: "consistent ?n" by (simp add: consistent_def)
      have e: "settled now ?n = settled now s"
        using Cons Owner by (simp add: settled_def performSave_update)
      show ?thesis using IH[OF less c] by (simp add: drain_Cons[OF Cons] r e)
    next
      case Waiter
      show ?thesis
      proof (cases "isWriting s")
        case True
        then have wl: "writeLock s" and o: "Owner \<in> set cs"
          using inv Cons Waiter by (auto simp: consistent_def)
        let ?n = "s\<lparr>microtasks := cs @ [Waiter]\<rparr>"
        have r: "resume now c (s\<lparr>microtasks := cs\<rparr>) = ?n"
          using Waiter True wl by (simp add: resume_def flushPendingUpdates_def)
        have t: "takeWhile (\<lambda>c. c \<noteq> Owner) (cs @ [Waiter]) = takeWhile (\<lambda>c. c \<noteq> Owner) cs"
          using o by (simp add: takeWhile_append1)
        have less: "(?n, s) \<in> measures [waiting, \<lambda>s. length (microtasks s), owner_distance]"
          using Cons Waiter True by (simp add: waiting_def owner_distance_def t)
        have c: "consistent ?n" using inv o by (simp add: consistent_def)
        have e: "settled now ?n = settled now s"
          using Cons Waiter by (simp add: settled_def performSave_update)
        show ?thesis using IH[OF less c] by (simp add: drain_Cons[OF Cons] r e)
      next
        case False
        then have wl: "\<not> writeLock s" using inv by (simp add: consistent_def)
        show ?thesis
        proof (cases "pendingUpdates s = []")
          case True
          let ?n = "s\<lparr>microtasks := cs\<rparr>"
          have r: "resume now c (s\<lparr>microtasks := cs\<rparr>) = ?n"
            using Waiter False True by (simp add: resume_def flushPendingUpdates_def)
          have less: "(?n, s) \<in> measures [waiting, \<lambda>s. length (microtasks s), owner_distance]"
            using Cons Waiter by (simp add: waiting_def)
          have c: "consistent ?n" using False wl by (simp add: consistent_def)
          have e: "settled now ?n = settled now s"
            using True by (simp add: settled_def)
          show ?thesis using IH[OF less c] by (simp add: drain_Cons[OF Cons] r e)
        next
          case ne: False
          let ?n = "(performSave now s)\<lparr>isWriting := True, writeLock := True, microtasks := cs @ [Owner]\<rparr>"
          have r: "resume now c (s\<lparr>microtasks := cs\<rparr>) = ?n"
            using Waiter False ne
            by (simp add: resume_def flushPendingUpdates_def Let_def performSave_update performSave_fields)
          have less: "(?n, s) \<in> measures [waiting, \<lambda>s. length (microtasks s), owner_distance]"
            using Cons Waiter by (simp add: waiting_def)
          have c: "consistent ?n" by (simp add: consistent_def)
          have e: "settled now ?n = settled now s"
            using Cons Waiter ne by (simp add: settled_def performSave_fields)
          show ?thesis using IH[OF less c] by (simp add: drain_Cons[OF Cons] r e)
        qed
      qed
    qed
  qed
qed
qed

lemma saveTimeout_None_update: "saveTimeout s = None \<Longrightarrow> s\<lparr>saveTimeout := None\<rparr> = s"
  by (cases s) simp

lemma forceSave_pushed: "forceSave now update s = flushPendingUpdates now (pushed update s)"
proof (cases "saveTimeout s")
  case None
  then show ?thesis
    by (cases update) (simp_all add: forceSave_def pushed_def Let_def saveTimeout_None_update)
next
  case (Some d)
  then show ?thesis
    by (cases update) (simp_all add: forceSave_def pushed_def Let_def)
qed

lemma consistent_pushed: "consistent (pushed update s) = consistent s"
  by (cases update) (simp_all add: pushed_def consistent_def)

lemma consistent_flushPendingUpdates:
  "consistent s \<Longrightarrow> consistent (flushPendingUpdates now s)"
  by (auto simp: consistent_def flushPendingUpdates_def Let_def performSave_fields)

lemma flush_drain:
  assumes "consistent s"
  shows "drain now (flushPendingUpdates now s) = Some (flushed now s)"
proof -
  have "settled now (flushPendingUpdates now s) = flushed now s"
  proof (cases "isWriting s")
    case True
    then have "writeLock s" using assms by (simp add: consistent_def)
    then show ?thesis using True
      by (simp add: flushPendingUpdates_def settled_def flushed_def performSave_update)
  next
    case False
    then have "\<not> writeLock s" using assms by (simp add: consistent_def)
    then show ?thesis using False
      by (simp add: flushPendingUpdates_def settled_def flushed_def performSave_update
          performSave_fields Let_def)
  qed
  then show ?thesis
    using drain_consistent[OF consistent_flushPendingUpdates[OF assms], of now] by simp
qed

lemma forceSave_drain:
  "consistent s \<Longrightarrow> drain now (forceSave now update s) = Some (flushed now (pushed update s))"
  by (simp add: forceSave_pushed flush_drain consistent_pushed)

lemma timer_fires_drain:
  assumes "consistent s"
  shows "drain now (timer_fires now t s) =
           Some (case saveTimeout s of
                   None \<Rightarrow> settled now s
                 | Some deadline \<Rightarrow>
                     if deadline \<le> t then flushed now (s\<lparr>saveTimeout := None\<rparr>) else settled now s)"
proof -
  have c: "consistent (s\<lparr>saveTimeout := None\<rparr>)" using assms by (simp add: consistent_def)
  show ?thesis
    using assms c
    by (simp add: timer_fires_def flush_drain drain_consistent split: option.splits)
qed

text \<open>
  Claim C9. In every state the manager can be in, if no update is pending, a flush
  (\<^verbatim>\<open>forceSave()\<close> without an argument, or the debounce timer firing) runs to its end
  without changing the disk: every path holds what it held, so the stored snapshot and its
  \<^verbatim>\<open>lastUpdated\<close> are unchanged, and no operation is added to the journal.
\<close>

theorem flush_without_pending_writes_nothing:
  assumes "consistent s" and "pendingUpdates s = []"
  shows "(\<exists>s'. drain now (forceSave now None s) = Some s'
              \<and> nodes s' = nodes s \<and> journal s' = journal s \<and> pendingUpdates s' = [])
       \<and> (\<exists>s'. drain now (timer_fires now t s) = Some s'
              \<and> nodes s' = nodes s \<and> journal s' = journal s \<and> pendingUpdates s' = [])"
  using assms
  by (simp add: forceSave_drain timer_fires_drain flushed_def pushed_def settled_def
      split: option.splits)

section \<open>Flushes\<close>

lemma loadState_accepted_nodes:
  "primary_accepted s \<Longrightarrow> nodes (snd (loadState now s)) = nodes s"
  "primary_accepted s \<Longrightarrow> journal (snd (loadState now s)) = journal s"
  "primary_accepted s \<Longrightarrow> fst (loadState now s) = primary_snapshot now s"
  by (simp_all add: loadState_accepted[OF primary_accepted_validate] log_line_fields)



lemma pushed_fields:
  "filePath (pushed update s) = filePath s"
  "backupPath (pushed update s) = backupPath s"
  "nodes (pushed update s) = nodes s"
  "refused (pushed update s) = refused s"
  "journal (pushed update s) = journal s"
  "logged (pushed update s) = logged s"
  "saveTimeout (pushed update s) = None"
  "isWriting (pushed update s) = isWriting s"
  "writeLock (pushed update s) = writeLock s"
  "microtasks (pushed update s) = microtasks s"
  "pendingUpdates (pushed update s) = pendingUpdates s @ (case update of None \<Rightarrow> [] | Some u \<Rightarrow> [u])"
  by (cases update; simp add: pushed_def)+







lemma try_save_atomic_write:
  "try_save now s =
     atomic_write ((snd (loadState now s))\<lparr>pendingUpdates := []\<rparr>)
       (JSON_stringify (state_value
          (snapshot_to_write now (fst (loadState now s)) (pendingUpdates s))))"
  using same_manager_loadState[of now s] by (simp add: try_save_def Let_def same_manager_def)


lemma stored_example_fields:
  "filePath stored_example = ''bot-state.json''"
  "backupPath stored_example = ''bot-state.json.backup''"
  "pendingUpdates stored_example = []"
  "saveTimeout stored_example = None"
  "nodes stored_example ''bot-state.json'' = Some (File (JsonText (state_value example_state)))"
  "nodes stored_example ''bot-state.json.backup'' = None"
  "nodes stored_example ''bot-state.json.tmp'' = None"
  "refused stored_example op = False"
  "journal stored_example = []"
  "quiescent stored_example"
  "consistent stored_example"
  by (simp_all add: stored_example_def new_manager_def disk_of_def no_faults_def example_state_text
      quiescent_def consistent_def)

lemma primary_accepted_stored_example: "primary_accepted stored_example"
  by (simp add: primary_accepted_def stored_example_fields acceptable_example)

text \<open>A flush with nothing pending, over a stored example state.\<close>

theorem flush_without_pending_writes_nothing_witness:
  "(\<exists>s'. drain ''now'' (forceSave ''now'' None stored_example) = Some s'
        \<and> nodes s' = nodes stored_example \<and> journal s' = [])
 \<and> (\<exists>s'. drain ''now'' (timer_fires ''now'' 5000 stored_example) = Some s'
        \<and> nodes s' = nodes stored_example \<and> journal s' = [])"
  using flush_without_pending_writes_nothing [of stored_example "''now''" "5000"]
  by (auto simp: stored_example_fields)


section \<open>The session sweep\<close>






lemma loadState_at_rest:
  assumes "at_rest s"
  shows "nodes (snd (loadState now s)) = nodes s" and "journal (snd (loadState now s)) = journal s"
proof -
  have "nodes (snd (loadState now s)) = nodes s \<and> journal (snd (loadState now s)) = journal s"
  proof (cases "primary_accepted s")
    case True
    then show ?thesis by (simp add: loadState_accepted_nodes)
  next
    case False
    with assms have "\<not> backup_accepted s" by (simp add: at_rest_def)
    then obtain e where "validate_file now s (backupPath s) = Inl e"
      by (cases "validate_file now s (backupPath s)") (auto simp: backup_accepted_iff[of s now])
    then show ?thesis using False by (simp add: loadState_not_accepted load_backup_invalid)
  qed
  then show "nodes (snd (loadState now s)) = nodes s" "journal (snd (loadState now s)) = journal s"
    by simp_all
qed








section \<open>Successful saves\<close>

lemma suffix_neq: "p @ ''.backup'' \<noteq> p @ ''.tmp''" "p @ ''.backup'' \<noteq> p" "p @ ''.tmp'' \<noteq> p"
  by simp_all

lemma atomic_write_healthy:
  assumes "healthy s"
  shows "atomic_write s c = Inr (committed s c)"
proof -
  let ?tmp = "filePath s @ ''.tmp''"
  let ?s1 = "s\<lparr>nodes := (nodes s)(?tmp \<mapsto> File c), journal := journal s @ [Write ?tmp]\<rparr>"
  have r: "\<And>op. \<not> refused s op" and b: "backupPath s = filePath s @ ''.backup''"
    and d: "nodes s (filePath s) \<noteq> Some Dir" "nodes s (filePath s @ ''.backup'') \<noteq> Some Dir"
      "nodes s ?tmp \<noteq> Some Dir"
    using assms by (auto simp: healthy_def)
  have w: "writeFileSync s ?tmp c = Inr ?s1"
    using r d by (simp add: writeFileSync_def split: option.splits node.splits)
  show ?thesis
  proof (cases "nodes s (filePath s)")
    case None
    have rn: "renameSync ?s1 ?tmp (filePath s) =
                Inr (?s1\<lparr>nodes := (nodes ?s1)(?tmp := None, filePath s \<mapsto> File c),
                         journal := journal ?s1 @ [Rename ?tmp (filePath s)]\<rparr>)"
      using r None by (simp add: renameSync_def)
    have n: "(nodes ?s1)(?tmp := None, filePath s \<mapsto> File c)
             = (nodes s)(?tmp := None, backupPath s := nodes s (backupPath s), filePath s \<mapsto> File c)"
      using b by (auto simp: fun_eq_iff)
    have "?s1\<lparr>nodes := (nodes ?s1)(?tmp := None, filePath s \<mapsto> File c),
                         journal := journal ?s1 @ [Rename ?tmp (filePath s)]\<rparr> = committed s c"
      unfolding n using None by (simp add: committed_def existsSync_def)
    then show ?thesis
      using w None rn by (simp add: atomic_write_def Let_def existsSync_def)
  next
    case (Some n)
    then obtain c0 where f: "nodes s (filePath s) = Some (File c0)" using d by (cases n) auto
    let ?s2 = "?s1\<lparr>nodes := (nodes ?s1)(backupPath s \<mapsto> File c0),
                    journal := journal ?s1 @ [Copy (filePath s) (backupPath s)]\<rparr>"
    have cp: "copyFileSync ?s1 (filePath s) (backupPath s) = Inr ?s2"
      using r f d b by (simp add: copyFileSync_def split: option.splits node.splits)
    have rn: "renameSync ?s2 ?tmp (filePath s) =
                Inr (?s2\<lparr>nodes := (nodes ?s2)(?tmp := None, filePath s \<mapsto> File c),
                         journal := journal ?s2 @ [Rename ?tmp (filePath s)]\<rparr>)"
      using r f b by (simp add: renameSync_def)
    have n: "(nodes ?s2)(?tmp := None, filePath s \<mapsto> File c)
             = (nodes s)(?tmp := None, backupPath s := nodes s (filePath s), filePath s \<mapsto> File c)"
      using f b by (auto simp: fun_eq_iff)
    have "?s2\<lparr>nodes := (nodes ?s2)(?tmp := None, filePath s \<mapsto> File c),
                         journal := journal ?s2 @ [Rename ?tmp (filePath s)]\<rparr> = committed s c"
      unfolding n using f by (simp add: committed_def existsSync_def)
    then show ?thesis
      using w f cp rn by (simp add: atomic_write_def Let_def existsSync_def)
  qed
qed

lemma validate_file_same_disk:
  "same_disk a b \<Longrightarrow> validate_file now a p = validate_file now b p"
  by (simp add: validate_file_def readFileSync_def same_disk_def)

lemma primary_accepted_same_disk: "same_disk a b \<Longrightarrow> primary_accepted a = primary_accepted b"
  by (simp add: primary_accepted_def same_disk_def)

lemma backup_accepted_same_disk: "same_disk a b \<Longrightarrow> backup_accepted a = backup_accepted b"
  by (simp add: backup_accepted_def same_disk_def)

lemma loaded_same_disk:
  assumes "same_disk a b"
  shows "fst (loadState now a) = fst (loadState now b)"
proof (cases "primary_accepted a")
  case True
  then have "primary_accepted b" using assms by (simp add: primary_accepted_same_disk)
  then show ?thesis using True assms
    by (simp add: loadState_accepted_nodes primary_snapshot_def same_disk_def)
next
  case False
  then have nb: "\<not> primary_accepted b" using assms by (simp add: primary_accepted_same_disk)
  have p: "promotion_possible a = promotion_possible b"
    using assms by (simp add: promotion_possible_def same_disk_def)
  have v: "validate_file now a (backupPath a) = validate_file now b (backupPath b)"
    using assms validate_file_same_disk[OF assms] by (simp add: same_disk_def)
  show ?thesis
  proof (cases "validate_file now b (backupPath b)")
    case (Inl e)
    then show ?thesis using False nb v
      by (simp add: loadState_not_accepted load_backup_invalid)
  next
    case (Inr st)
    then show ?thesis using False nb v p
      by (cases "promotion_possible b")
         (simp_all add: loadState_not_accepted load_backup_promote load_backup_no_promote)
  qed
qed

text \<open>On a disk in order the loader either leaves the disk as it is or restores the main
  file from a backup that validates.\<close>

lemma loadState_healthy:
  assumes "healthy s"
  shows "(nodes (snd (loadState now s)) = nodes s \<and> journal (snd (loadState now s)) = journal s)
       \<or> (\<not> primary_accepted s
            \<and> (\<exists>c. nodes s (backupPath s) = Some (File c))
            \<and> nodes (snd (loadState now s)) = (nodes s)(filePath s := nodes s (backupPath s))
            \<and> journal (snd (loadState now s)) = journal s @ [Copy (backupPath s) (filePath s)])"
proof (cases "primary_accepted s")
  case True
  then show ?thesis by (simp add: loadState_accepted_nodes)
next
  case False
  show ?thesis
  proof (cases "validate_file now s (backupPath s)")
    case (Inl e)
    then show ?thesis using False by (simp add: loadState_not_accepted load_backup_invalid)
  next
    case (Inr st)
    have p: "promotion_possible s" using assms by (simp add: promotion_possible_def healthy_def)
    from validate_Inr_file[OF Inr] show ?thesis using False
      by (simp add: loadState_not_accepted load_backup_promote[OF Inr p])
  qed
qed

lemma healthy_loaded:
  assumes "healthy s"
  shows "healthy ((snd (loadState now s))\<lparr>pendingUpdates := []\<rparr>)"
proof -
  have m: "filePath (snd (loadState now s)) = filePath s"
    "backupPath (snd (loadState now s)) = backupPath s"
    "refused (snd (loadState now s)) = refused s"
    using same_manager_loadState[of now s] by (simp_all add: same_manager_def)
  have b: "backupPath s = filePath s @ ''.backup''" using assms by (simp add: healthy_def)
  from loadState_healthy[OF assms, of now] show ?thesis
  proof
    assume "nodes (snd (loadState now s)) = nodes s \<and> journal (snd (loadState now s)) = journal s"
    then show ?thesis using assms by (simp add: healthy_def m)
  next
    assume "\<not> primary_accepted s
            \<and> (\<exists>c. nodes s (backupPath s) = Some (File c))
            \<and> nodes (snd (loadState now s)) = (nodes s)(filePath s := nodes s (backupPath s))
            \<and> journal (snd (loadState now s)) = journal s @ [Copy (backupPath s) (filePath s)]"
    then show ?thesis using assms b by (auto simp: healthy_def m)
  qed
qed

lemma performSave_healthy:
  assumes "healthy s"
  shows "performSave now s =
           log_line (Debug ''State saved successfully'')
             (committed ((snd (loadState now s))\<lparr>pendingUpdates := []\<rparr>)
                (JSON_stringify (state_value
                   (snapshot_to_write now (fst (loadState now s)) (pendingUpdates s)))))"
  by (simp add: performSave_def try_save_atomic_write atomic_write_healthy[OF healthy_loaded[OF assms]])

lemma writes_to_append: "writes_to p (a @ b) = writes_to p a @ writes_to p b"
  by (simp add: writes_to_def)

lemma performSave_healthy_disk:
  assumes "healthy s"
  shows "nodes (performSave now s) (filePath s) =
           Some (File (JSON_stringify (state_value
                   (snapshot_to_write now (fst (loadState now s)) (pendingUpdates s)))))"
    and "writes_to (filePath s) (journal (performSave now s)) =
           writes_to (filePath s) (journal (snd (loadState now s)))
           @ [Rename (filePath s @ ''.tmp'') (filePath s)]"
proof -
  have b: "backupPath s = filePath s @ ''.backup''" using assms(1) by (simp add: healthy_def)
  have m: "filePath (snd (loadState now s)) = filePath s" "backupPath (snd (loadState now s)) = backupPath s"
    using same_manager_loadState[of now s] by (simp_all add: same_manager_def)
  show "nodes (performSave now s) (filePath s) =
           Some (File (JSON_stringify (state_value
                   (snapshot_to_write now (fst (loadState now s)) (pendingUpdates s)))))"
    by (simp add: performSave_healthy[OF assms] log_line_fields committed_def m)
  show "writes_to (filePath s) (journal (performSave now s)) =
           writes_to (filePath s) (journal (snd (loadState now s)))
           @ [Rename (filePath s @ ''.tmp'') (filePath s)]"
    by (simp add: performSave_healthy[OF assms] log_line_fields committed_def m b writes_to_def)
qed

lemma try_save_write_refused:
  assumes "refused s (Write (filePath s @ ''.tmp''))"
  shows "try_save now s = Inl (EACCES, (snd (loadState now s))\<lparr>pendingUpdates := []\<rparr>)"
proof -
  have "refused (snd (loadState now s)) = refused s" "filePath (snd (loadState now s)) = filePath s"
    using same_manager_loadState[of now s] by (simp_all add: same_manager_def)
  then show ?thesis
    using assms by (simp add: try_save_atomic_write atomic_write_def Let_def writeFileSync_def)
qed

section \<open>Batched scheduling\<close>

lemma fold_schedules:
  "list_all is_schedule cs \<Longrightarrow>
   fold (run_call now t) cs s =
     s\<lparr>pendingUpdates := pendingUpdates s @ concat (map scheduled cs),
       saveTimeout := (if cs = [] then saveTimeout s else Some (t + 2000))\<rparr>"
proof (induction cs arbitrary: s)
  case Nil
  then show ?case by simp
next
  case (Cons c cs)
  then obtain u where c: "c = ScheduleAutoSave u" by (cases c) auto
  from Cons show ?case
    by (simp add: c run_call_def scheduleAutoSave_def)
qed

lemma timer_not_due:
  "(case saveTimeout s of None \<Rightarrow> True | Some deadline \<Rightarrow> t < deadline) \<Longrightarrow> timer_fires now t s = s"
  by (auto simp: timer_fires_def split: option.splits)

lemma turn_schedules:
  assumes "quiescent s" and "case saveTimeout s of None \<Rightarrow> True | Some deadline \<Rightarrow> t < deadline"
    and "list_all is_schedule cs"
  shows "turn now t cs s =
           Some (s\<lparr>pendingUpdates := pendingUpdates s @ concat (map scheduled cs),
                   saveTimeout := (if cs = [] then saveTimeout s else Some (t + 2000))\<rparr>)"
proof -
  have m: "microtasks s = []" using assms(1) by (simp add: quiescent_def)
  show ?thesis
    using m by (simp add: turn_def timer_not_due[OF assms(2)] drain_Nil fold_schedules[OF assms(3)])
qed

lemma run_schedules:
  assumes "quiescent s" and "debounced (saveTimeout s) es"
    and "\<forall>e \<in> set es. list_all is_schedule (snd (snd e))"
  shows "run es s =
           Some (s\<lparr>pendingUpdates := pendingUpdates s @ scheduled_by es,
                   saveTimeout := armed_after (saveTimeout s) es\<rparr>)"
  using assms
proof (induction es arbitrary: s)
  case Nil
  then show ?case by (simp add: scheduled_by_def)
next
  case (Cons e es)
  let ?s1 = "s\<lparr>pendingUpdates := pendingUpdates s @ concat (map scheduled (snd (snd e))),
              saveTimeout := (if snd (snd e) = [] then saveTimeout s else Some (fst (snd e) + 2000))\<rparr>"
  have t: "turn (fst e) (fst (snd e)) (snd (snd e)) s = Some ?s1"
    using Cons.prems by (intro turn_schedules) simp_all
  have q: "quiescent ?s1" using Cons.prems(1) by (simp add: quiescent_def)
  have d: "debounced (saveTimeout ?s1) es" using Cons.prems(2) by simp
  have a: "\<forall>e \<in> set es. list_all is_schedule (snd (snd e))" using Cons.prems(3) by simp
  show ?case
    using Cons.IH[OF q d a] by (simp add: t scheduled_by_def)
qed

lemma run_append:
  "run (es @ fs) s = (case run es s of None \<Rightarrow> None | Some s1 \<Rightarrow> run fs s1)"
  by (induction es arbitrary: s) (simp_all split: option.splits)

lemma debounced_append:
  "debounced d (es @ fs) = (debounced d es \<and> debounced (armed_after d es) fs)"
  by (induction es arbitrary: d) auto

lemma quiescent_consistent: "quiescent s \<Longrightarrow> consistent s"
  by (simp add: quiescent_def consistent_def)

lemma turn_forceSave:
  assumes "quiescent s" and "case saveTimeout s of None \<Rightarrow> True | Some deadline \<Rightarrow> t < deadline"
  shows "turn now t [ForceSave update] s = Some (flushed now (pushed update s))"
proof -
  have m: "microtasks s = []" using assms(1) by (simp add: quiescent_def)
  show ?thesis
    using m quiescent_consistent[OF assms(1)]
    by (simp add: turn_def timer_not_due[OF assms(2)] drain_Nil run_call_def forceSave_drain)
qed

text \<open>
  Claim C8, as the code has it. Take the manager between two turns of the event loop (no
  flush is running), on a disk where no step of the write protocol fails and where
  loading changes nothing (the main file is accepted, or no backup validates to restore
  it from). Let turns of \<^verbatim>\<open>scheduleAutoSave\<close> calls follow one another within the debounce
  window, at least one update in all, and then one \<^verbatim>\<open>forceSave()\<close>, still within the
  window. Then the run ends with nothing pending; the main file holds the loaded snapshot
  with the pending updates merged in (those still pending from before, then the new
  ones, in the order of the calls), stamped with the time of the save; and the journal
  has gained exactly one operation that writes the main file, the rename.
\<close>

theorem batched_schedule_one_write:
  assumes "quiescent s" and "healthy s" and "at_rest s"
    and "\<forall>e \<in> set es. list_all is_schedule (snd (snd e))"
    and "debounced (saveTimeout s) (es @ [(now, t, [ForceSave None])])"
    and "scheduled_by es \<noteq> []"
  shows "\<exists>s'. run (es @ [(now, t, [ForceSave None])]) s = Some s'
           \<and> quiescent s' \<and> pendingUpdates s' = []
           \<and> nodes s' (filePath s) =
               Some (File (JSON_stringify (state_value
                 (snapshot_to_write now (fst (loadState now s))
                    (pendingUpdates s @ scheduled_by es)))))
           \<and> writes_to (filePath s) (journal s') =
               writes_to (filePath s) (journal s) @ [Rename (filePath s @ ''.tmp'') (filePath s)]"
proof -
  let ?s1 = "s\<lparr>pendingUpdates := pendingUpdates s @ scheduled_by es,
              saveTimeout := armed_after (saveTimeout s) es\<rparr>"
  let ?p = "pushed None ?s1"
  have d: "debounced (saveTimeout s) es"
    and w: "case armed_after (saveTimeout s) es of None \<Rightarrow> True | Some deadline \<Rightarrow> t < deadline"
    using assms(5) by (auto simp: debounced_append split: option.splits)
  have r1: "run es s = Some ?s1"
    using run_schedules[OF assms(1) d assms(4)] by simp
  have q1: "quiescent ?s1" using assms(1) by (simp add: quiescent_def)
  have t: "turn now t [ForceSave None] ?s1 = Some (flushed now ?p)"
    using q1 w by (intro turn_forceSave) simp_all
  have r: "run (es @ [(now, t, [ForceSave None])]) s = Some (flushed now ?p)"
    by (simp add: run_append r1 t)
  have pu: "pendingUpdates ?p = pendingUpdates s @ scheduled_by es" by (simp add: pushed_fields)
  have sd: "same_disk ?p s" by (simp add: same_disk_def pushed_fields)
  have h: "healthy ?p" using assms(2) by (simp add: healthy_def pushed_fields)
  have a: "at_rest ?p"
    using assms(3) primary_accepted_same_disk[OF sd] backup_accepted_same_disk[OF sd]
    by (simp add: at_rest_def)
  have fl: "flushed now ?p = (performSave now ?p)\<lparr>isWriting := False, writeLock := False, microtasks := []\<rparr>"
    using assms(6) pu by (simp add: flushed_def)
  have n: "nodes (flushed now ?p) (filePath s) =
               Some (File (JSON_stringify (state_value
                 (snapshot_to_write now (fst (loadState now s))
                    (pendingUpdates s @ scheduled_by es)))))"
    using performSave_healthy_disk(1)[OF h, of now]
    by (simp add: fl pu loaded_same_disk[OF sd] pushed_fields)
  have j: "writes_to (filePath s) (journal (flushed now ?p)) =
               writes_to (filePath s) (journal s) @ [Rename (filePath s @ ''.tmp'') (filePath s)]"
    using performSave_healthy_disk(2)[OF h, of now] loadState_at_rest(2)[OF a, of now]
    by (simp add: fl pushed_fields)
  have q: "quiescent (flushed now ?p)" "pendingUpdates (flushed now ?p) = []"
    by (simp_all add: fl quiescent_def performSave_fields)
  show ?thesis using r n j q by blast
qed

lemma run_one_then_flush:
  assumes "quiescent s" and "saveTimeout s = None"
  shows "run ([(''t1'', 0, [ScheduleAutoSave (set_directory ''C2'' ''/b'')])]
              @ [(''t2'', 1000, [ForceSave None])]) s = Some (one_then_flush s)"
proof -
  let ?s1 = "scheduleAutoSave 0 (set_directory ''C2'' ''/b'') s"
  have m: "microtasks s = []" using assms(1) by (simp add: quiescent_def)
  have t1: "turn ''t1'' 0 [ScheduleAutoSave (set_directory ''C2'' ''/b'')] s = Some ?s1"
    using m assms(2) by (simp add: turn_def timer_fires_def drain_Nil run_call_def scheduleAutoSave_def)
  have q1: "quiescent ?s1" using assms(1) by (simp add: quiescent_def scheduleAutoSave_def)
  have t2: "turn ''t2'' 1000 [ForceSave None] ?s1 = Some (flushed ''t2'' (pushed None ?s1))"
    using q1 by (intro turn_forceSave) (simp_all add: scheduleAutoSave_def)
  show ?thesis by (simp add: t1 t2 one_then_flush_def)
qed

lemma corrupted_primary_fields:
  "filePath corrupted_primary = ''bot-state.json''"
  "backupPath corrupted_primary = ''bot-state.json.backup''"
  "pendingUpdates corrupted_primary = []"
  "saveTimeout corrupted_primary = None"
  "journal corrupted_primary = []"
  "nodes corrupted_primary ''bot-state.json'' = Some (File (NotJson ''not json''))"
  "nodes corrupted_primary ''bot-state.json.backup'' = Some (File (JsonText (state_value example_state)))"
  "nodes corrupted_primary ''bot-state.json.tmp'' = None"
  "refused corrupted_primary op = False"
  "quiescent corrupted_primary"
  by (simp_all add: corrupted_primary_def new_manager_def disk_of_def no_faults_def example_state_text
      quiescent_def)

text \<open>
  Claim C8 as stated promises exactly one write of the main file for every sequence of
  \<^verbatim>\<open>schedule()\<close> calls followed by a \<^verbatim>\<open>forceFlush()\<close>. After one scheduled update and a
  forced flush:
  \<^item> over a main file holding \<^verbatim>\<open>not json\<close> beside a valid backup, the main file has
    been written twice: by the loader, which restored it from the backup, and by the
    rename;
  \<^item> on a disk that refuses the temporary file, the main file has not been written.

  And a forced flush with no update scheduled (N = 0) writes nothing.
\<close>

theorem batched_schedule_counterexample:
  "run ([(''t1'', 0, [ScheduleAutoSave (set_directory ''C2'' ''/b'')])]
        @ [(''t2'', 1000, [ForceSave None])]) corrupted_primary
     = Some (one_then_flush corrupted_primary)
 \<and> writes_to ''bot-state.json'' (journal (one_then_flush corrupted_primary))
     = [Copy ''bot-state.json.backup'' ''bot-state.json'',
        Rename ''bot-state.json.tmp'' ''bot-state.json'']
 \<and> run ([(''t1'', 0, [ScheduleAutoSave (set_directory ''C2'' ''/b'')])]
        @ [(''t2'', 1000, [ForceSave None])]) write_refused
     = Some (one_then_flush write_refused)
 \<and> writes_to ''bot-state.json'' (journal (one_then_flush write_refused)) = []
 \<and> run ([] @ [(''now'', 0, [ForceSave None])]) stored_example = Some stored_example
 \<and> writes_to ''bot-state.json'' (journal stored_example) = []"
proof -
  let ?u = "set_directory ''C2'' ''/b''"
  have r1: "run ([(''t1'', 0, [ScheduleAutoSave ?u])] @ [(''t2'', 1000, [ForceSave None])])
              corrupted_primary = Some (one_then_flush corrupted_primary)"
    by (rule run_one_then_flush) (simp_all add: corrupted_primary_fields)
  let ?p = "pushed None (scheduleAutoSave 0 ?u corrupted_primary)"
  have fp: "filePath ?p = ''bot-state.json''" "backupPath ?p = ''bot-state.json.backup''"
    "journal ?p = []" "pendingUpdates ?p = [?u]" "refused ?p = refused corrupted_primary"
    "nodes ?p = nodes corrupted_primary"
    by (simp_all add: pushed_fields scheduleAutoSave_def corrupted_primary_fields)
  have hp: "healthy ?p"
    by (simp add: healthy_def fp corrupted_primary_fields)
  have na: "\<not> primary_accepted ?p"
    by (simp add: primary_accepted_def fp corrupted_primary_fields)
  have v: "validate_file ''t2'' ?p (backupPath ?p) = Inr (snapshot_of ''t2'' (state_value example_state))"
    by (simp add: validate_file_Inr_iff fp corrupted_primary_fields acceptable_example)
  have pp: "promotion_possible ?p"
    by (simp add: promotion_possible_def fp corrupted_primary_fields)
  have jl: "journal (snd (loadState ''t2'' ?p)) = [Copy ''bot-state.json.backup'' ''bot-state.json'']"
    using na by (simp add: loadState_not_accepted load_backup_promote(3)[OF v pp] fp)
  have w1: "writes_to ''bot-state.json'' (journal (one_then_flush corrupted_primary))
     = [Copy ''bot-state.json.backup'' ''bot-state.json'',
        Rename ''bot-state.json.tmp'' ''bot-state.json'']"
    using performSave_healthy_disk(2)[OF hp, of "''t2''"]
    by (simp add: one_then_flush_def flushed_def fp jl writes_to_def)
  have s: "quiescent write_refused" "saveTimeout write_refused = None"
    using stored_example_fields by (simp_all add: write_refused_def quiescent_def)
  have r2: "run ([(''t1'', 0, [ScheduleAutoSave ?u])] @ [(''t2'', 1000, [ForceSave None])])
              write_refused = Some (one_then_flush write_refused)"
    using s by (rule run_one_then_flush)
  let ?q = "pushed None (scheduleAutoSave 0 ?u write_refused)"
  have fq: "filePath ?q = ''bot-state.json''" "journal ?q = []" "pendingUpdates ?q = [?u]"
    "refused ?q (Write ''bot-state.json.tmp'')"
    by (simp_all add: pushed_fields scheduleAutoSave_def write_refused_def stored_example_fields)
  have aq: "primary_accepted ?q"
    by (simp add: primary_accepted_def pushed_fields scheduleAutoSave_def write_refused_def
        stored_example_fields acceptable_example)
  have rq: "refused ?q (Write (filePath ?q @ ''.tmp''))" by (simp add: fq)
  have ps: "performSave ''t2'' ?q
              = log_line (Error ''Failed to save state'')
                  ((snd (loadState ''t2'' ?q))\<lparr>pendingUpdates := []\<rparr>)"
    by (simp add: performSave_def try_save_write_refused[OF rq])
  have w2: "writes_to ''bot-state.json'' (journal (one_then_flush write_refused)) = []"
    using loadState_accepted_nodes(2)[OF aq, of "''t2''"]
    by (simp add: one_then_flush_def flushed_def fq ps log_line_fields writes_to_def)
  have q: "quiescent stored_example" by (rule stored_example_fields)
  have t: "turn ''now'' 0 [ForceSave None] stored_example
             = Some (flushed ''now'' (pushed None stored_example))"
    using q by (intro turn_forceSave) (simp_all add: stored_example_fields)
  have "flushed ''now'' (pushed None stored_example) = stored_example"
    by (simp add: flushed_def pushed_def stored_example_def new_manager_def)
  with t have r3: "run ([] @ [(''now'', 0, [ForceSave None])]) stored_example = Some stored_example"
    by simp
  have w3: "writes_to ''bot-state.json'' (journal stored_example) = []"
    by (simp add: writes_to_def stored_example_fields)
  show ?thesis
    using r1 w1 r2 w2 r3 w3 by simp
qed

text \<open>Scenario A of the specification on an empty disk: \<^verbatim>\<open>C1\<close> is set to \<^verbatim>\<open>/a\<close>, then to
  \<^verbatim>\<open>/b\<close>, then the flush is forced. One rename, and the file has \<^verbatim>\<open>/b\<close>.\<close>

theorem batched_schedule_one_write_witness:
  "\<exists>s'. run ([(''t1'', 0, [ScheduleAutoSave (set_directory ''C1'' ''/a'')]),
               (''t2'', 1500, [ScheduleAutoSave (set_directory ''C1'' ''/b'')])]
              @ [(''t3'', 3000, [ForceSave None])]) first_run = Some s'
       \<and> nodes s' ''bot-state.json'' =
           Some (File (JsonText (Obj
             [(''version'', Str ''1.0.0''), (''lastUpdated'', Str ''t3''),
              (''workingDirectories'', Obj [(''C1'', directory_record ''C1'' ''/b'')]),
              (''sessions'', Obj [])])))
       \<and> writes_to ''bot-state.json'' (journal s') = [Rename ''bot-state.json.tmp'' ''bot-state.json'']"
proof -
  let ?es = "[(''t1'', 0, [ScheduleAutoSave (set_directory ''C1'' ''/a'')]),
              (''t2'', 1500, [ScheduleAutoSave (set_directory ''C1'' ''/b'')])]"
  have f: "filePath first_run = ''bot-state.json''" "journal first_run = []"
    "pendingUpdates first_run = []" "saveTimeout first_run = None" "nodes first_run p = None" for p
    by (simp_all add: first_run_def new_manager_def disk_of_def)
  have q: "quiescent first_run" by (simp add: first_run_def new_manager_def quiescent_def)
  have h: "healthy first_run"
    by (simp add: healthy_def first_run_def new_manager_def disk_of_def no_faults_def)
  have a: "at_rest first_run"
    by (simp add: at_rest_def backup_accepted_def first_run_def new_manager_def disk_of_def)
  have s: "\<forall>e \<in> set ?es. list_all is_schedule (snd (snd e))" by simp
  have d: "debounced (saveTimeout first_run) (?es @ [(''t3'', 3000, [ForceSave None])])"
    by (simp add: f)
  have u: "scheduled_by ?es = [set_directory ''C1'' ''/a'', set_directory ''C1'' ''/b'']"
    by (simp add: scheduled_by_def)
  have ne: "scheduled_by ?es \<noteq> []" by (simp add: u)
  have na: "\<not> primary_accepted first_run" by (simp add: primary_accepted_def f)
  have v: "validate_file ''t3'' first_run (backupPath first_run) = Inl ENOENT"
    by (simp add: validate_file_def readFileSync_def first_run_def new_manager_def disk_of_def
        no_faults_def)
  have l: "fst (loadState ''t3'' first_run) = getEmptyState ''t3''"
    using na v by (simp add: loadState_not_accepted load_backup_invalid)
  have w: "JSON_stringify (state_value (snapshot_to_write ''t3'' (getEmptyState ''t3'')
             [set_directory ''C1'' ''/a'', set_directory ''C1'' ''/b'']))
           = JsonText (Obj
             [(''version'', Str ''1.0.0''), (''lastUpdated'', Str ''t3''),
              (''workingDirectories'', Obj [(''C1'', directory_record ''C1'' ''/b'')]),
              (''sessions'', Obj [])])"
    by (simp add: JSON_stringify_def state_value_def snapshot_to_write_def mergeUpdates_def
        merge_update_def merge_workingDirectories_def merge_sessions_def merge_entry_def
        assign_def PROTO_def
        getEmptyState_def set_directory_def get_prop_def REPLACE_ALL_def directory_record_def)
  from batched_schedule_one_write [OF q h a s d ne]
  obtain s' where
    "run (?es @ [(''t3'', 3000, [ForceSave None])]) first_run = Some s'"
    "nodes s' (filePath first_run) =
       Some (File (JSON_stringify (state_value
         (snapshot_to_write ''t3'' (fst (loadState ''t3'' first_run))
            (pendingUpdates first_run @ scheduled_by ?es)))))"
    "writes_to (filePath first_run) (journal s') =
       writes_to (filePath first_run) (journal first_run)
       @ [Rename (filePath first_run @ ''.tmp'') (filePath first_run)]"
    by blast
  then show ?thesis
    unfolding u l f by (intro exI[of _ s']) (simp add: writes_to_def w)
qed

section \<open>The round trip through a file\<close>

lemma to_json_Obj: "to_json (Obj ps) = Obj (to_json_props ps)"
  by (simp add: to_json_props_def)

lemma to_json_Undefined_iff: "to_json v = Undefined \<longleftrightarrow> v = Undefined"
  by (cases v) simp_all

lemma to_json_props_keys: "fst ` set (to_json_props ps) \<subseteq> fst ` set ps"
  by (force simp: to_json_props_def)

lemma json_at_Nil [simp]: "json_at [] k = None"
  by (simp add: json_at_def to_json_props_def)

lemma json_at_Cons:
  "json_at ((a, v) # ps) k =
     (if v \<noteq> Undefined \<and> k = a then Some (to_json v) else json_at ps k)"
  by (simp add: json_at_def to_json_props_def to_json_Undefined_iff)

lemma json_at_delete: "json_at (AList.delete a ps) k = (if k = a then None else json_at ps k)"
  by (induction ps) (auto simp: json_at_Cons)

lemma json_at_update:
  "v \<noteq> Undefined \<Longrightarrow>
   json_at (AList.update a v ps) k = (if k = a then Some (to_json v) else json_at ps k)"
proof (induction ps)
  case Nil
  then show ?case by (simp add: json_at_Cons)
next
  case (Cons p ps)
  obtain b w where p: "p = (b, w)" by (cases p)
  show ?case
    using Cons by (auto simp: p json_at_Cons)
qed

lemma json_equal_refl: "json_equal a a"
  by (simp add: json_equal_def)





lemma json_equal_edit_entry:
  assumes "json_equal a b"
  shows "json_equal (edit_entry e a) (edit_entry e b)"
proof -
  from assms have j: "json_at a = json_at b" by (simp add: json_equal_def)
  show ?thesis
  proof (cases "snd e = Null \<or> snd e = Undefined")
    case True
    then show ?thesis using j
      by (simp add: json_equal_def edit_entry_def json_at_delete fun_eq_iff)
  next
    case False
    then show ?thesis using j
      by (simp add: json_equal_def edit_entry_def json_at_update fun_eq_iff)
  qed
qed

lemma json_equal_fold_edit_entry:
  "json_equal a b \<Longrightarrow> json_equal (fold edit_entry es a) (fold edit_entry es b)"
  by (induction es arbitrary: a b) (simp_all add: json_equal_edit_entry)

lemma json_equal_edit_sessions:
  "json_equal a b \<Longrightarrow> json_equal (edit_sessions u a) (edit_sessions u b)"
  by (cases u) (simp_all add: edit_sessions_def json_equal_refl json_equal_fold_edit_entry)

lemma json_equal_edit_directories:
  "json_equal a b \<Longrightarrow> json_equal (edit_directories u a) (edit_directories u b)"
  by (cases u) (auto simp: edit_directories_def json_equal_refl json_equal_fold_edit_entry)

lemma json_equal_fold_sessions:
  "json_equal a b \<Longrightarrow> json_equal (fold_sessions us a) (fold_sessions us b)"
  by (induction us arbitrary: a b) (simp_all add: fold_sessions_def json_equal_edit_sessions)

lemma json_equal_fold_directories:
  "json_equal a b \<Longrightarrow> json_equal (fold_directories us a) (fold_directories us b)"
  by (induction us arbitrary: a b) (simp_all add: fold_directories_def json_equal_edit_directories)








section \<open>Order of the fragments\<close>





































end
